theory Spec2Isabelle
  imports Complex_Main "HOL-Library.AList"
begin

section \<open>Python values, exceptions and the library the program calls\<close>

text \<open>
  The in-memory store \<open>students\<close> is whatever \<open>json.load\<close> returned plus the dicts
  appended by \<open>add_student\<close>, so its elements are arbitrary JSON-shaped Python values,
  not only student dicts. A string stands for the UTF-8 bytes of a Python \<open>str\<close>, and
  a \<open>str\<close> that holds a lone surrogate, which has no UTF-8 encoding, for the bytes that
  the same scheme gives its code points (such a string is not valid UTF-8); a
  float is modelled by its value (the sign of zero is not kept); a dict is an association
  list in insertion order, as Python keeps it.
\<close>

datatype pyfloat = Finite rat | NaN | PosInf | NegInf

datatype pyval =
    PNone
  | PBool bool
  | PInt int
  | PFloat pyfloat
  | PStr string
  | PList "pyval list"
  | PDict "(string \<times> pyval) list"

datatype exn =
    EOFError | KeyError | TypeError | AttributeError | ValueError
  | OSError | JSONDecodeError | UnicodeDecodeError | UnicodeEncodeError | RecursionError

datatype 'a result = Return 'a | Raise exn

text \<open>
  The methods of \<open>str\<close> and the functions of \<open>json\<close> are Python's own, not this
  repository's; they are parameters of the model, so every theorem holds for whatever
  they compute. \<open>json_dump v\<close> is what \<open>json.dump(v, f, indent=2, ensure_ascii=False)\<close>
  does on the file just opened for writing, which \<open>open\<close> has emptied: the text it wrote,
  and the exception it raised if it did not return (the text is then what it had
  written before). \<open>json_load t\<close> is what \<open>json.load(f)\<close> does on a file holding \<open>t\<close>:
  the value, or the exception raised while decoding or parsing.
\<close>

record pylib =
  str_strip :: "string \<Rightarrow> string"
  str_upper :: "string \<Rightarrow> string"
  str_lower :: "string \<Rightarrow> string"
  json_dump :: "pyval \<Rightarrow> string \<times> exn option"
  json_load :: "string \<Rightarrow> pyval result"

subsection \<open>Truth value, equality, subscription\<close>

fun truthy :: "pyval \<Rightarrow> bool" where
  "truthy PNone = False"
| "truthy (PBool b) = b"
| "truthy (PInt i) = (i \<noteq> 0)"
| "truthy (PFloat f) = (f \<noteq> Finite 0)"
| "truthy (PStr s) = (s \<noteq> [])"
| "truthy (PList xs) = (xs \<noteq> [])"
| "truthy (PDict d) = (d \<noteq> [])"

fun num_of :: "pyval \<Rightarrow> pyfloat option" where
  "num_of (PBool b) = Some (Finite (if b then 1 else 0))"
| "num_of (PInt i) = Some (Finite (of_int i))"
| "num_of (PFloat f) = Some f"
| "num_of v = None"

text \<open>
  \<open>py_eq a b\<close> is the comparison \<open>list.remove\<close> and the container comparisons make
  (\<open>a is b or a == b\<close>): numbers compare by value across \<open>bool\<close>, \<open>int\<close> and
  \<open>float\<close>, a string only equals the same string, lists compare element by element,
  dicts have the same number of keys and equal values under each key. \<open>json\<close> returns
  one shared object for every \<open>NaN\<close>, so two of them are the same object.
\<close>

fun py_eq :: "pyval \<Rightarrow> pyval \<Rightarrow> bool"
  and py_eq_list :: "pyval list \<Rightarrow> pyval list \<Rightarrow> bool"
  and py_eq_items :: "(string \<times> pyval) list \<Rightarrow> (string \<times> pyval) list \<Rightarrow> bool"
where
  "py_eq PNone b = (b = PNone)"
| "py_eq (PBool x) b = (num_of b = num_of (PBool x))"
| "py_eq (PInt i) b = (num_of b = num_of (PInt i))"
| "py_eq (PFloat f) b = (num_of b = Some f)"
| "py_eq (PStr s) b = (b = PStr s)"
| "py_eq (PList xs) b = (case b of PList ys \<Rightarrow> py_eq_list xs ys | _ \<Rightarrow> False)"
| "py_eq (PDict d) b =
     (case b of PDict e \<Rightarrow> length d = length e \<and> py_eq_items d e | _ \<Rightarrow> False)"
| "py_eq_list [] ys = (ys = [])"
| "py_eq_list (x # xs) ys =
     (case ys of [] \<Rightarrow> False | y # ys' \<Rightarrow> py_eq x y \<and> py_eq_list xs ys')"
| "py_eq_items [] e = True"
| "py_eq_items ((k, v) # d) e =
     (case map_of e k of None \<Rightarrow> False | Some w \<Rightarrow> py_eq v w \<and> py_eq_items d e)"

text \<open>\<open>s[k]\<close> for a string key: \<open>KeyError\<close> on a dict without the key, \<open>TypeError\<close> on
  anything that is not a dict.\<close>

fun subscript :: "pyval \<Rightarrow> string \<Rightarrow> pyval result" where
  "subscript (PDict d) k = (case map_of d k of None \<Rightarrow> Raise KeyError | Some v \<Rightarrow> Return v)"
| "subscript v k = Raise TypeError"

text \<open>\<open>s.get(k, default)\<close>: only a dict has the method.\<close>

fun dict_get :: "pyval \<Rightarrow> string \<Rightarrow> pyval \<Rightarrow> pyval result" where
  "dict_get (PDict d) k dflt = (case map_of d k of None \<Rightarrow> Return dflt | Some v \<Rightarrow> Return v)"
| "dict_get v k dflt = Raise AttributeError"

text \<open>\<open>f"{v:<10}"\<close>: \<open>None\<close>, lists and dicts reject a format specification.\<close>

fun format_field :: "pyval \<Rightarrow> pyval result" where
  "format_field PNone = Raise TypeError"
| "format_field (PList xs) = Raise TypeError"
| "format_field (PDict d) = Raise TypeError"
| "format_field v = Return v"

section \<open>The process state\<close>

text \<open>
  What the program prints with \<open>print\<close>, one constructor for each message (the three
  calls that print the head of the table are one message; the prompt text that \<open>input\<close>
  shows is not recorded).
\<close>

datatype msg =
    WarnUnexpectedContent
  | WarnCouldNotRead
  | ErrCouldNotSave
  | FieldEmpty
  | NoRecords
  | TableHeader
  | TableRow pyval pyval pyval pyval
  | TableTotal nat
  | AddBanner
  | ErrDuplicate
  | ErrInvalidGrade
  | OkAdded
  | ViewBanner
  | SearchBanner
  | Found
  | ErrNotFound
  | UpdateBanner
  | CurrentValues
  | ErrUpdateCanceled
  | OkUpdated
  | DeleteBanner
  | OkDeleted
  | DeletionCanceled

text \<open>
  \<open>students\<close> is the module's global list; \<open>data_file\<close> is the content of
  \<open>data.json\<close> (\<open>None\<close> when it does not exist); \<open>can_read\<close> and \<open>can_write\<close> say
  whether opening it for reading and for writing succeeds (otherwise \<open>open\<close> raises
  \<open>OSError\<close>); \<open>stdin\<close> holds the lines not yet read, and \<open>input\<close> raises
  \<open>EOFError\<close> when none is left. The terminal is one that shows every \<open>str\<close>, so
  that \<open>print\<close> and the prompt of \<open>input\<close> do not raise (the encoding of the terminal is
  set outside the program, that of \<open>data.json\<close> by the program). Not modelled:
  \<open>KeyboardInterrupt\<close>.
\<close>

record world =
  students :: "pyval list"
  data_file :: "string option"
  can_read :: bool
  can_write :: bool
  stdin :: "string list"
  stdout :: "msg list"

type_synonym 'a io = "world \<Rightarrow> 'a result \<times> world"

definition ret :: "'a \<Rightarrow> 'a io" where
  "ret x w = (Return x, w)"

definition lift :: "'a result \<Rightarrow> 'a io" where
  "lift r w = (r, w)"

definition bind :: "'a io \<Rightarrow> ('a \<Rightarrow> 'b io) \<Rightarrow> 'b io" where
  "bind m f w = (case m w of (Raise e, w') \<Rightarrow> (Raise e, w') | (Return x, w') \<Rightarrow> f x w')"

definition print :: "msg \<Rightarrow> unit io" where
  "print m w = (Return (), w\<lparr>stdout := stdout w @ [m]\<rparr>)"

definition input_line :: "string io" where
  "input_line w =
     (case stdin w of [] \<Rightarrow> (Raise EOFError, w) | l # ls \<Rightarrow> (Return l, w\<lparr>stdin := ls\<rparr>))"

section \<open>Utilities\<close>

definition load_data :: "pylib \<Rightarrow> pyval list io" where
  "load_data L w =
     (case data_file w of
        None \<Rightarrow> (Return [], w)
      | Some text \<Rightarrow>
          (case (if can_read w then json_load L text else Raise OSError) of
             Return data \<Rightarrow>
               (case data of
                  PList xs \<Rightarrow> (Return xs, w)
                | _ \<Rightarrow> (Return [], w\<lparr>stdout := stdout w @ [WarnUnexpectedContent]\<rparr>))
           | Raise e \<Rightarrow>
               if e = JSONDecodeError \<or> e = OSError
               then (Return [], w\<lparr>stdout := stdout w @ [WarnCouldNotRead]\<rparr>)
               else (Raise e, w)))"

text \<open>
  \<open>save_data\<close> catches \<open>OSError\<close> only. When \<open>open\<close> raises it the file is as it was. Once
  the file is open it holds what \<open>json.dump\<close> wrote, also when \<open>json.dump\<close> raises: an
  \<open>OSError\<close> is reported, any other exception leaves \<open>save_data\<close>.
\<close>

definition save_data :: "pylib \<Rightarrow> unit io" where
  "save_data L w =
     (if can_write w
      then (case json_dump L (PList (students w)) of
              (text, None) \<Rightarrow> (Return (), w\<lparr>data_file := Some text\<rparr>)
            | (text, Some e) \<Rightarrow>
                if e = OSError
                then (Return (), w\<lparr>data_file := Some text,
                                   stdout := stdout w @ [ErrCouldNotSave]\<rparr>)
                else (Raise e, w\<lparr>data_file := Some text\<rparr>))
      else (Return (), w\<lparr>stdout := stdout w @ [ErrCouldNotSave]\<rparr>))"

function prompt_nonempty :: "pylib \<Rightarrow> string io" where
  "prompt_nonempty L w =
     (case stdin w of
        [] \<Rightarrow> (Raise EOFError, w)
      | l # ls \<Rightarrow>
          (let v = str_strip L l in
           if v \<noteq> [] then (Return v, w\<lparr>stdin := ls\<rparr>)
           else prompt_nonempty L (w\<lparr>stdin := ls, stdout := stdout w @ [FieldEmpty]\<rparr>)))"
  by pat_completeness auto
termination
  by (relation "measure (\<lambda>(L, w). length (stdin w))") auto

declare prompt_nonempty.simps [simp del]

text \<open>\<open>input(...).strip()\<close>.\<close>

definition input_strip :: "pylib \<Rightarrow> string io" where
  "input_strip L = bind input_line (\<lambda>l. ret (str_strip L l))"

definition prompt_optional :: "pylib \<Rightarrow> string io" where
  "prompt_optional L = input_strip L"

definition validate_grade :: "string \<Rightarrow> bool" where
  "validate_grade g = (if g = [] then False else True)"

text \<open>
  The scan of \<open>search_by_roll\<close>. Python returns the dict itself, which the callers then
  mutate or remove; the model returns it with its position in the list, which stands for
  the reference.
\<close>

fun search_loop :: "pyval list \<Rightarrow> string \<Rightarrow> (nat \<times> pyval) option result" where
  "search_loop [] roll_no = Return None"
| "search_loop (s # rest) roll_no =
     (case subscript s ''roll_no'' of
        Raise e \<Rightarrow> Raise e
      | Return v \<Rightarrow>
          if py_eq v (PStr roll_no) then Return (Some (0, s))
          else (case search_loop rest roll_no of
                  Raise e \<Rightarrow> Raise e
                | Return None \<Rightarrow> Return None
                | Return (Some (i, s')) \<Rightarrow> Return (Some (Suc i, s'))))"

definition search_by_roll :: "string \<Rightarrow> (nat \<times> pyval) option io" where
  "search_by_roll roll_no w = (search_loop (students w) roll_no, w)"

text \<open>The truth value of what \<open>search_by_roll\<close> returned (\<open>None\<close> or a dict).\<close>

fun found :: "(nat \<times> pyval) option \<Rightarrow> bool" where
  "found None = False"
| "found (Some (i, s)) = truthy s"

text \<open>One row of \<open>print_table\<close>: the four replacement fields of the f-string, left to
  right.\<close>

definition format_row :: "pyval \<Rightarrow> msg io" where
  "format_row s =
     bind (lift (dict_get s ''roll_no'' (PStr []))) (\<lambda>a.
     bind (lift (format_field a)) (\<lambda>a'.
     bind (lift (dict_get s ''name'' (PStr []))) (\<lambda>b.
     bind (lift (format_field b)) (\<lambda>b'.
     bind (lift (dict_get s ''grade'' (PStr []))) (\<lambda>c.
     bind (lift (format_field c)) (\<lambda>c'.
     bind (lift (dict_get s ''age'' (PStr []))) (\<lambda>d.
     bind (lift (format_field d)) (\<lambda>d'.
     ret (TableRow a' b' c' d')))))))))"

fun print_rows :: "pyval list \<Rightarrow> unit io" where
  "print_rows [] = ret ()"
| "print_rows (s # rest) =
     bind (format_row s) (\<lambda>row. bind (print row) (\<lambda>_. print_rows rest))"

definition print_table :: "pyval list \<Rightarrow> unit io" where
  "print_table records =
     (if records = [] then print NoRecords
      else bind (print TableHeader) (\<lambda>_.
           bind (print_rows records) (\<lambda>_.
           print (TableTotal (length records)))))"

section \<open>CRUD operations\<close>

text \<open>\<open>students.append(d)\<close>.\<close>

definition append_student :: "pyval \<Rightarrow> unit io" where
  "append_student d w = (Return (), w\<lparr>students := students w @ [d]\<rparr>)"

text \<open>\<open>s[k] = v\<close> on the dict at position \<open>i\<close> of \<open>students\<close>: an existing key keeps its
  place, a new key goes last.\<close>

definition store_item :: "nat \<Rightarrow> string \<Rightarrow> pyval \<Rightarrow> unit io" where
  "store_item i k v w =
     (if i < length (students w)
      then (case students w ! i of
              PDict d \<Rightarrow> (Return (), w\<lparr>students := (students w)[i := PDict (AList.update k v d)]\<rparr>)
            | _ \<Rightarrow> (Raise TypeError, w))
      else (Raise TypeError, w))"

text \<open>\<open>xs.remove(s)\<close>, \<open>s\<close> being the object at position \<open>i\<close>: the first element that is
  \<open>s\<close> or equal to it goes; \<open>ValueError\<close> when there is none.\<close>

fun list_remove :: "pyval list \<Rightarrow> nat \<Rightarrow> pyval \<Rightarrow> pyval list result" where
  "list_remove [] i s = Raise ValueError"
| "list_remove (x # xs) i s =
     (if i = 0 \<or> py_eq x s then Return xs
      else (case list_remove xs (i - 1) s of
              Raise e \<Rightarrow> Raise e
            | Return ys \<Rightarrow> Return (x # ys)))"

definition remove_student :: "nat \<Rightarrow> pyval \<Rightarrow> unit io" where
  "remove_student i s w =
     (case list_remove (students w) i s of
        Raise e \<Rightarrow> (Raise e, w)
      | Return ys \<Rightarrow> (Return (), w\<lparr>students := ys\<rparr>))"

text \<open>The dict \<open>add_student\<close> builds.\<close>

definition student :: "string \<Rightarrow> string \<Rightarrow> string \<Rightarrow> string \<Rightarrow> pyval" where
  "student roll name grade age =
     PDict [(''roll_no'', PStr roll), (''name'', PStr name), (''grade'', PStr grade),
            (''age'', PStr age)]"

definition add_student :: "pylib \<Rightarrow> unit io" where
  "add_student L =
     bind (print AddBanner) (\<lambda>_.
     bind (prompt_nonempty L) (\<lambda>roll.
     bind (search_by_roll roll) (\<lambda>r.
     if found r then print ErrDuplicate
     else
       bind (prompt_nonempty L) (\<lambda>name.
       bind (prompt_nonempty L) (\<lambda>grade.
       if \<not> validate_grade grade then print ErrInvalidGrade
       else
         bind (prompt_optional L) (\<lambda>age.
         bind (append_student (student roll name (str_upper L grade) age)) (\<lambda>_.
         bind (save_data L) (\<lambda>_.
         print OkAdded))))))))"

definition view_students :: "unit io" where
  "view_students =
     bind (print ViewBanner) (\<lambda>_. (\<lambda>w. print_table (students w) w))"

definition search_student :: "pylib \<Rightarrow> unit io" where
  "search_student L =
     bind (print SearchBanner) (\<lambda>_.
     bind (prompt_nonempty L) (\<lambda>roll.
     bind (search_by_roll roll) (\<lambda>r.
     case r of
       Some (i, s) \<Rightarrow>
         if truthy s then bind (print Found) (\<lambda>_. print_table [s])
         else print ErrNotFound
     | None \<Rightarrow> print ErrNotFound)))"

definition update_student :: "pylib \<Rightarrow> unit io" where
  "update_student L =
     bind (print UpdateBanner) (\<lambda>_.
     bind (prompt_nonempty L) (\<lambda>roll.
     bind (search_by_roll roll) (\<lambda>r.
     case r of
       None \<Rightarrow> print ErrNotFound
     | Some (i, s) \<Rightarrow>
         if \<not> truthy s then print ErrNotFound
         else
           bind (print CurrentValues) (\<lambda>_.
           bind (lift (subscript s ''name'')) (\<lambda>_.
           bind (input_strip L) (\<lambda>new_name.
           bind (lift (subscript s ''grade'')) (\<lambda>_.
           bind (input_strip L) (\<lambda>new_grade.
           bind (lift (dict_get s ''age'' (PStr []))) (\<lambda>_.
           bind (input_strip L) (\<lambda>new_age.
           bind (if new_name \<noteq> [] then store_item i ''name'' (PStr new_name) else ret ()) (\<lambda>_.
           let finish =
             bind (if new_age \<noteq> [] \<or> new_age = []
                   then store_item i ''age'' (PStr new_age) else ret ()) (\<lambda>_.
             bind (save_data L) (\<lambda>_.
             print OkUpdated))
           in
             if new_grade \<noteq> [] then
               (if \<not> validate_grade new_grade then print ErrUpdateCanceled
                else bind (store_item i ''grade'' (PStr (str_upper L new_grade))) (\<lambda>_. finish))
             else finish)))))))))))"

definition delete_student :: "pylib \<Rightarrow> unit io" where
  "delete_student L =
     bind (print DeleteBanner) (\<lambda>_.
     bind (prompt_nonempty L) (\<lambda>roll.
     bind (search_by_roll roll) (\<lambda>r.
     case r of
       None \<Rightarrow> print ErrNotFound
     | Some (i, s) \<Rightarrow>
         if \<not> truthy s then print ErrNotFound
         else
           bind (lift (subscript s ''name'')) (\<lambda>_.
           bind (lift (subscript s ''roll_no'')) (\<lambda>_.
           bind input_line (\<lambda>l.
           let confirm = str_lower L (str_strip L l) in
           if confirm = ''y''
           then bind (remove_student i s) (\<lambda>_.
                bind (save_data L) (\<lambda>_.
                print OkDeleted))
           else print DeletionCanceled))))))"

text \<open>The first statement of \<open>main\<close>: \<open>students = load_data()\<close>.\<close>

definition main_load :: "pylib \<Rightarrow> unit io" where
  "main_load L = bind (load_data L) (\<lambda>xs w. (Return (), w\<lparr>students := xs\<rparr>))"

section \<open>The data model of the specification\<close>

text \<open>The value a record holds under a key, and its roll number.\<close>

definition field :: "pyval \<Rightarrow> string \<Rightarrow> pyval option" where
  "field s k = (case s of PDict d \<Rightarrow> map_of d k | _ \<Rightarrow> None)"

definition roll_of :: "pyval \<Rightarrow> pyval option" where
  "roll_of s = field s ''roll_no''"

text \<open>No two records of the collection share a roll number.\<close>

definition unique_rolls :: "pyval list \<Rightarrow> bool" where
  "unique_rolls xs = distinct (List.map_filter roll_of xs)"

text \<open>A student record: a dict (its keys distinct, as in every Python dict) whose
  \<open>roll_no\<close>, \<open>name\<close>, \<open>grade\<close> and \<open>age\<close> are strings.\<close>

fun is_str :: "pyval option \<Rightarrow> bool" where
  "is_str (Some (PStr s)) = True"
| "is_str v = False"

definition is_student :: "pyval \<Rightarrow> bool" where
  "is_student s =
     (case s of
        PDict d \<Rightarrow> distinct (map fst d) \<and> is_str (map_of d ''roll_no'') \<and>
          is_str (map_of d ''name'') \<and> is_str (map_of d ''grade'') \<and> is_str (map_of d ''age'')
      | _ \<Rightarrow> False)"

text \<open>\<open>steps R m\<close>: whatever \<open>m\<close> does and however it ends, the list \<open>students\<close> before
  and after it are related by \<open>R\<close>.\<close>

definition steps :: "(pyval list \<Rightarrow> pyval list \<Rightarrow> bool) \<Rightarrow> 'a io \<Rightarrow> bool" where
  "steps R m \<longleftrightarrow> (\<forall>w. R (students w) (students (snd (m w))))"

definition same_rolls :: "pyval list \<Rightarrow> pyval list \<Rightarrow> bool" where
  "same_rolls xs ys \<longleftrightarrow> map roll_of ys = map roll_of xs"

definition keeps_unique :: "pyval list \<Rightarrow> pyval list \<Rightarrow> bool" where
  "keeps_unique xs ys \<longleftrightarrow> (unique_rolls xs \<longrightarrow> unique_rolls ys)"

text \<open>\<open>json.dump\<close> of the collection raises an exception that \<open>save_data\<close> does not
  catch.\<close>

definition dump_raises :: "pylib \<Rightarrow> pyval list \<Rightarrow> bool" where
  "dump_raises L xs =
     (case snd (json_dump L (PList xs)) of None \<Rightarrow> False | Some e \<Rightarrow> e \<noteq> OSError)"

section \<open>A sample library and sample states\<close>

text \<open>
  The concrete runs below need a concrete library: \<open>sample_lib\<close>, Python's own on the
  texts of the sample. On ASCII text \<open>ascii_strip\<close>, \<open>ascii_upper\<close> and \<open>ascii_lower\<close>
  are \<open>str.strip\<close>, \<open>str.upper\<close> and \<open>str.lower\<close>.
\<close>

definition py_space :: "char \<Rightarrow> bool" where
  "py_space c = (c \<in> set [CHR 0x09, CHR 0x0A, CHR 0x0B, CHR 0x0C, CHR 0x0D,
                         CHR 0x1C, CHR 0x1D, CHR 0x1E, CHR 0x1F, CHR 0x20])"

definition ascii_strip :: "string \<Rightarrow> string" where
  "ascii_strip s = rev (dropWhile py_space (rev (dropWhile py_space s)))"

definition ascii_upper :: "string \<Rightarrow> string" where
  "ascii_upper s =
     map (\<lambda>c. case map_of (zip ''abcdefghijklmnopqrstuvwxyz'' ''ABCDEFGHIJKLMNOPQRSTUVWXYZ'') c of
                 Some u \<Rightarrow> u | None \<Rightarrow> c) s"

definition ascii_lower :: "string \<Rightarrow> string" where
  "ascii_lower s =
     map (\<lambda>c. case map_of (zip ''ABCDEFGHIJKLMNOPQRSTUVWXYZ'' ''abcdefghijklmnopqrstuvwxyz'') c of
                 Some u \<Rightarrow> u | None \<Rightarrow> c) s"

subsection \<open>UTF-8\<close>

text \<open>
  \<open>data.json\<close> is opened with \<open>encoding="utf-8"\<close>, whose codec is strict: reading
  raises \<open>UnicodeDecodeError\<close> on bytes that are not valid UTF-8, and writing raises
  \<open>UnicodeEncodeError\<close> on a \<open>str\<close> that holds a lone surrogate. \<open>utf8_valid\<close> is the
  test of the decoder: \<open>trail\<close> is the number of bytes that follow a first byte, and
  \<open>second_byte\<close> the range of the byte after it, which leaves out the encodings that are
  too long, the surrogates and the code points above \<open>0x10FFFF\<close>.
\<close>

definition trail :: "nat \<Rightarrow> nat option" where
  "trail x =
     (if x < 0x80 then Some 0
      else if 0xC2 \<le> x \<and> x \<le> 0xDF then Some 1
      else if 0xE0 \<le> x \<and> x \<le> 0xEF then Some 2
      else if 0xF0 \<le> x \<and> x \<le> 0xF4 then Some 3
      else None)"

definition cont_byte :: "char \<Rightarrow> bool" where
  "cont_byte c = (0x80 \<le> (of_char c :: nat) \<and> (of_char c :: nat) \<le> 0xBF)"

definition second_byte :: "nat \<Rightarrow> char \<Rightarrow> bool" where
  "second_byte x b =
     ((if x = 0xE0 then 0xA0 else if x = 0xF0 then 0x90 else 0x80) \<le> (of_char b :: nat) \<and>
      (of_char b :: nat) \<le> (if x = 0xED then 0x9F else if x = 0xF4 then 0x8F else 0xBF))"

fun utf8_valid :: "string \<Rightarrow> bool" where
  "utf8_valid [] = True"
| "utf8_valid (a # s) =
     (case trail (of_char a) of
        None \<Rightarrow> False
      | Some n \<Rightarrow>
          n \<le> length s \<and> (if n = 0 then True else second_byte (of_char a) (hd s)) \<and>
          list_all cont_byte (take n s) \<and> utf8_valid (drop n s))"

declare utf8_valid.simps(2) [simp del]

subsection \<open>Writing JSON\<close>

text \<open>
  \<open>json_text 0 v\<close> is the text \<open>json.dump(v, f, indent=2, ensure_ascii=False)\<close> writes
  for a value without finite floats (the shortest decimal form that \<open>repr\<close> gives a
  finite float is not modelled: such a float is outside the sample).
\<close>

fun nat_text :: "nat \<Rightarrow> string" where
  "nat_text n =
     (if n < 10 then [''0123456789'' ! n]
      else nat_text (n div 10) @ [''0123456789'' ! (n mod 10)])"

declare nat_text.simps [simp del]

definition int_text :: "int \<Rightarrow> string" where
  "int_text i = (if i < 0 then CHR ''-'' # nat_text (nat (- i)) else nat_text (nat i))"

fun float_text :: "pyfloat \<Rightarrow> string" where
  "float_text NaN = ''NaN''"
| "float_text PosInf = ''Infinity''"
| "float_text NegInf = ''-Infinity''"
| "float_text (Finite r) = int_text \<lfloor>r\<rfloor> @ ''.0''"

definition escape_char :: "char \<Rightarrow> string" where
  "escape_char c =
     (if c = CHR 0x22 then [CHR 0x5C, CHR 0x22]
      else if c = CHR 0x5C then [CHR 0x5C, CHR 0x5C]
      else if c = CHR 0x0A then [CHR 0x5C, CHR ''n'']
      else if c = CHR 0x0D then [CHR 0x5C, CHR ''r'']
      else if c = CHR 0x09 then [CHR 0x5C, CHR ''t'']
      else if c = CHR 0x08 then [CHR 0x5C, CHR ''b'']
      else if c = CHR 0x0C then [CHR 0x5C, CHR ''f'']
      else if (of_char c :: nat) < 32
      then [CHR 0x5C, CHR ''u'', CHR ''0'', CHR ''0'',
            ''0123456789abcdef'' ! (of_char c div 16), ''0123456789abcdef'' ! (of_char c mod 16)]
      else [c])"

definition quoted :: "string \<Rightarrow> string" where
  "quoted s = CHR 0x22 # concat (map escape_char s) @ [CHR 0x22]"

definition newline_indent :: "nat \<Rightarrow> string" where
  "newline_indent level = CHR 0x0A # replicate (2 * level) CHR '' ''"

fun json_text :: "nat \<Rightarrow> pyval \<Rightarrow> string"
  and json_items :: "nat \<Rightarrow> pyval list \<Rightarrow> string"
  and json_members :: "nat \<Rightarrow> (string \<times> pyval) list \<Rightarrow> string"
where
  "json_text level PNone = ''null''"
| "json_text level (PBool b) = (if b then ''true'' else ''false'')"
| "json_text level (PInt i) = int_text i"
| "json_text level (PFloat f) = float_text f"
| "json_text level (PStr s) = quoted s"
| "json_text level (PList xs) =
     (if xs = [] then ''[]''
      else ''['' @ newline_indent (Suc level) @ json_items (Suc level) xs @
           newline_indent level @ '']'')"
| "json_text level (PDict d) =
     (if d = [] then ''{}''
      else ''{'' @ newline_indent (Suc level) @ json_members (Suc level) d @
           newline_indent level @ ''}'')"
| "json_items level [] = []"
| "json_items level (x # xs) =
     json_text level x @ (if xs = [] then [] else '','' @ newline_indent level @ json_items level xs)"
| "json_members level [] = []"
| "json_members level ((k, v) # d) =
     quoted k @ '': '' @ json_text level v @
     (if d = [] then [] else '','' @ newline_indent level @ json_members level d)"

text \<open>
  \<open>json.dump\<close> writes that text piece by piece: \<open>json_chunks\<close>, \<open>list_chunks\<close> and
  \<open>dict_chunks\<close> are the pieces that \<open>_iterencode\<close>, the loop of \<open>_iterencode_list\<close>
  (\<open>buf\<close> is its variable of that name) and the loop of \<open>_iterencode_dict\<close> yield. The
  file encodes each piece as it is written, so a piece that cannot be encoded raises
  \<open>UnicodeEncodeError\<close> and the file is left with the pieces before it. Outside the
  sample: a value nested deeper than the interpreter's limit on nested calls.
\<close>

fun is_container :: "pyval \<Rightarrow> bool" where
  "is_container (PList xs) = True"
| "is_container (PDict d) = True"
| "is_container v = False"

fun json_chunks :: "nat \<Rightarrow> pyval \<Rightarrow> string list"
  and list_chunks :: "nat \<Rightarrow> string \<Rightarrow> pyval list \<Rightarrow> string list"
  and dict_chunks :: "nat \<Rightarrow> bool \<Rightarrow> (string \<times> pyval) list \<Rightarrow> string list"
where
  "json_chunks level PNone = [''null'']"
| "json_chunks level (PBool b) = [if b then ''true'' else ''false'']"
| "json_chunks level (PInt i) = [int_text i]"
| "json_chunks level (PFloat f) = [float_text f]"
| "json_chunks level (PStr s) = [quoted s]"
| "json_chunks level (PList xs) =
     (if xs = [] then [''[]'']
      else list_chunks (Suc level) (''['' @ newline_indent (Suc level)) xs @
           [newline_indent level, '']''])"
| "json_chunks level (PDict d) =
     (if d = [] then [''{}'']
      else [''{'', newline_indent (Suc level)] @ dict_chunks (Suc level) True d @
           [newline_indent level, ''}''])"
| "list_chunks level buf [] = []"
| "list_chunks level buf (x # xs) =
     (if is_container x then buf # json_chunks level x
      else [buf @ json_text level x]) @
     list_chunks level ('','' @ newline_indent level) xs"
| "dict_chunks level first [] = []"
| "dict_chunks level first ((k, v) # d) =
     (if first then [] else ['','' @ newline_indent level]) @
     [quoted k, '': ''] @ json_chunks level v @ dict_chunks level False d"

fun write_chunks :: "string list \<Rightarrow> string \<times> exn option" where
  "write_chunks [] = ([], None)"
| "write_chunks (c # cs) =
     (if utf8_valid c
      then (case write_chunks cs of (text, e) \<Rightarrow> (c @ text, e))
      else ([], Some UnicodeEncodeError))"

definition json_dump_utf8 :: "pyval \<Rightarrow> string \<times> exn option" where
  "json_dump_utf8 v = write_chunks (json_chunks 0 v)"

subsection \<open>Reading JSON\<close>

text \<open>
  \<open>json_loads\<close> follows CPython's \<open>json.decoder\<close> and \<open>json.scanner\<close>: \<open>scanstring\<close>,
  \<open>JSONObject\<close>, \<open>JSONArray\<close> and \<open>scan_once\<close> are its functions of these names, each
  returning the value read and the text left. A string stands for the UTF-8 bytes of a
  Python \<open>str\<close>, so a \<open>\u\<close> escape is read as the bytes of its code point. Outside the
  sample: the rounding of a number with a fraction or an
  exponent to a \<open>float\<close> (it is read as its exact decimal value); the limit on the digits
  of an integer. \<open>recursion_limit\<close> stands for the interpreter's limit on nested calls.
\<close>

definition json_ws :: "char \<Rightarrow> bool" where
  "json_ws c = (c \<in> set [CHR 0x20, CHR 0x09, CHR 0x0A, CHR 0x0D])"

definition skip_ws :: "string \<Rightarrow> string" where
  "skip_ws s = dropWhile json_ws s"

definition hex_val :: "char \<Rightarrow> nat option" where
  "hex_val c = map_of (zip ''0123456789abcdefABCDEF''
                 [0, 1, 2, 3, 4, 5, 6, 7, 8, 9, 10, 11, 12, 13, 14, 15, 10, 11, 12, 13, 14, 15]) c"

fun decode_uXXXX :: "string \<Rightarrow> nat option" where
  "decode_uXXXX (a # b # c # d # rest) =
     (case (hex_val a, hex_val b, hex_val c, hex_val d) of
        (Some x, Some y, Some z, Some u) \<Rightarrow> Some (((x * 16 + y) * 16 + z) * 16 + u)
      | _ \<Rightarrow> None)"
| "decode_uXXXX s = None"

definition utf8 :: "nat \<Rightarrow> string" where
  "utf8 n =
     (if n < 0x80 then [char_of n]
      else if n < 0x800 then [char_of (0xC0 + n div 64), char_of (0x80 + n mod 64)]
      else if n < 0x10000
      then [char_of (0xE0 + n div 4096), char_of (0x80 + n div 64 mod 64), char_of (0x80 + n mod 64)]
      else [char_of (0xF0 + n div 262144), char_of (0x80 + n div 4096 mod 64),
            char_of (0x80 + n div 64 mod 64), char_of (0x80 + n mod 64)])"

definition backslash :: "char \<Rightarrow> char option" where
  "backslash e = map_of [(CHR 0x22, CHR 0x22), (CHR 0x5C, CHR 0x5C), (CHR ''/'', CHR ''/''),
     (CHR ''b'', CHR 0x08), (CHR ''f'', CHR 0x0C), (CHR ''n'', CHR 0x0A), (CHR ''r'', CHR 0x0D),
     (CHR ''t'', CHR 0x09)] e"

definition prepend :: "string \<Rightarrow> (string \<times> string) result \<Rightarrow> (string \<times> string) result" where
  "prepend chunk r = (case r of Raise e \<Rightarrow> Raise e | Return (s, rest) \<Rightarrow> Return (chunk @ s, rest))"

text \<open>\<open>scanstring s\<close> reads a string whose opening quote has been read.\<close>

fun scanstring :: "string \<Rightarrow> (string \<times> string) result"
  and scan_escape :: "string \<Rightarrow> (string \<times> string) result"
where
  "scanstring [] = Raise JSONDecodeError"
| "scanstring (c # cs) =
     (if c = CHR 0x22 then Return ([], cs)
      else if c = CHR 0x5C then scan_escape cs
      else if (of_char c :: nat) < 32 then Raise JSONDecodeError
      else prepend [c] (scanstring cs))"
| "scan_escape [] = Raise JSONDecodeError"
| "scan_escape (esc # cs) =
     (if esc \<noteq> CHR ''u''
      then (case backslash esc of
              None \<Rightarrow> Raise JSONDecodeError
            | Some ch \<Rightarrow> prepend [ch] (scanstring cs))
      else (case decode_uXXXX cs of
              None \<Rightarrow> Raise JSONDecodeError
            | Some uni \<Rightarrow>
                if 0xD800 \<le> uni \<and> uni \<le> 0xDBFF \<and> take 2 (drop 4 cs) = [CHR 0x5C, CHR ''u'']
                then (case decode_uXXXX (drop 6 cs) of
                        None \<Rightarrow> Raise JSONDecodeError
                      | Some uni2 \<Rightarrow>
                          if 0xDC00 \<le> uni2 \<and> uni2 \<le> 0xDFFF
                          then prepend (utf8 (0x10000 + (uni - 0xD800) * 1024 + (uni2 - 0xDC00)))
                                 (scanstring (drop 10 cs))
                          else prepend (utf8 uni) (scanstring (drop 4 cs)))
                else prepend (utf8 uni) (scanstring (drop 4 cs))))"

text \<open>\<open>NUMBER_RE\<close>: an integer part, then a fraction and an exponent if they are there.\<close>

definition is_digit :: "char \<Rightarrow> bool" where
  "is_digit c = (c \<in> set ''0123456789'')"

definition digits_val :: "string \<Rightarrow> int" where
  "digits_val ds = foldl (\<lambda>n c. 10 * n + (int (of_char c) - 48)) 0 ds"

definition match_exponent :: "string \<Rightarrow> int option \<times> string" where
  "match_exponent s =
     (case s of
        [] \<Rightarrow> (None, s)
      | e # r \<Rightarrow>
          if e = CHR ''e'' \<or> e = CHR ''E''
          then (let (sign, r') =
                      (case r of
                         [] \<Rightarrow> (1, r)
                       | c # r'' \<Rightarrow> if c = CHR ''+'' then (1, r'')
                                    else if c = CHR ''-'' then (- 1, r'') else (1, r))
                in case r' of
                     [] \<Rightarrow> (None, s)
                   | d # _ \<Rightarrow>
                       if is_digit d
                       then (Some (sign * digits_val (takeWhile is_digit r')),
                             dropWhile is_digit r')
                       else (None, s))
          else (None, s))"

definition match_fraction :: "string \<Rightarrow> string \<times> string" where
  "match_fraction s =
     (case s of
        p # d # r \<Rightarrow>
          if p = CHR ''.'' \<and> is_digit d
          then (takeWhile is_digit (d # r), dropWhile is_digit (d # r))
          else ([], s)
      | _ \<Rightarrow> ([], s))"

definition match_number :: "string \<Rightarrow> (pyval \<times> string) option" where
  "match_number s =
     (let (sign, s1) = (case s of [] \<Rightarrow> (1, s)
                        | c # r \<Rightarrow> if c = CHR ''-'' then (- 1, r) else (1, s))
      in case s1 of
           [] \<Rightarrow> None
         | c # r \<Rightarrow>
             if \<not> is_digit c then None
             else
               (let ds = (if c = CHR ''0'' then [c] else c # takeWhile is_digit r);
                    s2 = (if c = CHR ''0'' then r else dropWhile is_digit r);
                    (frac, s3) = match_fraction s2;
                    (ex, s4) = match_exponent s3
                in if frac = [] \<and> ex = None
                   then Some (PInt (sign * digits_val ds), s4)
                   else
                     (let m = of_int sign *
                              (of_int (digits_val ds) +
                               of_int (digits_val frac) / 10 ^ length frac);
                          k = (case ex of None \<Rightarrow> 0 | Some k \<Rightarrow> k)
                      in Some (PFloat (Finite (if 0 \<le> k then m * 10 ^ nat k
                                               else m / 10 ^ nat (- k))), s4))))"

text \<open>
  The loops of \<open>JSONArray\<close> and \<open>JSONObject\<close>, over a scanner for the values inside. The
  test on the lengths is there for the termination of the loop; it holds whenever the
  scanner consumes what it reads, as \<open>scan_depth\<close> does (\<open>array_loop_unguarded\<close> and
  \<open>object_loop_unguarded\<close> below).
\<close>

function array_loop ::
  "(string \<Rightarrow> (pyval \<times> string) result) \<Rightarrow> string \<Rightarrow> (pyval list \<times> string) result" where
  "array_loop scan s =
     (case scan s of
        Raise e \<Rightarrow> Raise e
      | Return (v, r) \<Rightarrow>
          (case skip_ws r of
             [] \<Rightarrow> Raise JSONDecodeError
           | c # r' \<Rightarrow>
               if c = CHR '']'' then Return ([v], r')
               else if c = CHR '','' \<and> length r' < length s
               then (case array_loop scan (skip_ws r') of
                       Raise e \<Rightarrow> Raise e
                     | Return (vs, r'') \<Rightarrow> Return (v # vs, r''))
               else Raise JSONDecodeError))"
  by pat_completeness auto
termination
  by (relation "measure (\<lambda>(scan, s). length s)")
     (auto simp: skip_ws_def intro: le_less_trans [OF length_dropWhile_le])

declare array_loop.simps [simp del]

definition JSONArray ::
  "(string \<Rightarrow> (pyval \<times> string) result) \<Rightarrow> string \<Rightarrow> (pyval \<times> string) result" where
  "JSONArray scan s =
     (case skip_ws s of
        [] \<Rightarrow> Raise JSONDecodeError
      | c # r \<Rightarrow>
          if c = CHR '']'' then Return (PList [], r)
          else (case array_loop scan (c # r) of
                  Raise e \<Rightarrow> Raise e
                | Return (vs, r') \<Rightarrow> Return (PList vs, r')))"

function object_loop ::
  "(string \<Rightarrow> (pyval \<times> string) result) \<Rightarrow> string \<Rightarrow> ((string \<times> pyval) list \<times> string) result"
where
  "object_loop scan s =
     (case scanstring s of
        Raise e \<Rightarrow> Raise e
      | Return (key, r) \<Rightarrow>
          (case skip_ws r of
             [] \<Rightarrow> Raise JSONDecodeError
           | c # r1 \<Rightarrow>
               if c \<noteq> CHR '':'' then Raise JSONDecodeError
               else
                 (case scan (skip_ws r1) of
                    Raise e \<Rightarrow> Raise e
                  | Return (v, r2) \<Rightarrow>
                      (case skip_ws r2 of
                         [] \<Rightarrow> Raise JSONDecodeError
                       | d # r3 \<Rightarrow>
                           if d = CHR ''}'' then Return ([(key, v)], r3)
                           else if d \<noteq> CHR '','' then Raise JSONDecodeError
                           else
                             (case skip_ws r3 of
                                [] \<Rightarrow> Raise JSONDecodeError
                              | q # r4 \<Rightarrow>
                                  if q = CHR 0x22 \<and> length r4 < length s
                                  then (case object_loop scan r4 of
                                          Raise e \<Rightarrow> Raise e
                                        | Return (ps, r5) \<Rightarrow> Return ((key, v) # ps, r5))
                                  else Raise JSONDecodeError)))))"
  by pat_completeness auto
termination
  by (relation "measure (\<lambda>(scan, s). length s)") auto

declare object_loop.simps [simp del]

text \<open>\<open>dict(pairs)\<close>: a key read twice keeps its first place and its last value.\<close>

definition dict_of_pairs :: "(string \<times> pyval) list \<Rightarrow> (string \<times> pyval) list" where
  "dict_of_pairs ps = foldl (\<lambda>d (k, v). AList.update k v d) [] ps"

definition JSONObject ::
  "(string \<Rightarrow> (pyval \<times> string) result) \<Rightarrow> string \<Rightarrow> (pyval \<times> string) result" where
  "JSONObject scan s =
     (case skip_ws s of
        [] \<Rightarrow> Raise JSONDecodeError
      | c # r \<Rightarrow>
          if c = CHR ''}'' then Return (PDict [], r)
          else if c \<noteq> CHR 0x22 then Raise JSONDecodeError
          else (case object_loop scan r of
                  Raise e \<Rightarrow> Raise e
                | Return (ps, r') \<Rightarrow> Return (PDict (dict_of_pairs ps), r')))"

definition scan_once ::
  "(string \<Rightarrow> (pyval \<times> string) result) \<Rightarrow> string \<Rightarrow> (pyval \<times> string) result" where
  "scan_once scan s =
     (case s of
        [] \<Rightarrow> Raise JSONDecodeError
      | c # cs \<Rightarrow>
          if c = CHR 0x22
          then (case scanstring cs of
                  Raise e \<Rightarrow> Raise e
                | Return (str, r) \<Rightarrow> Return (PStr str, r))
          else if c = CHR ''{'' then JSONObject scan cs
          else if c = CHR ''['' then JSONArray scan cs
          else if take 4 s = ''null'' then Return (PNone, drop 4 s)
          else if take 4 s = ''true'' then Return (PBool True, drop 4 s)
          else if take 5 s = ''false'' then Return (PBool False, drop 5 s)
          else (case match_number s of
                  Some r \<Rightarrow> Return r
                | None \<Rightarrow>
                    if take 3 s = ''NaN'' then Return (PFloat NaN, drop 3 s)
                    else if take 8 s = ''Infinity'' then Return (PFloat PosInf, drop 8 s)
                    else if take 9 s = ''-Infinity'' then Return (PFloat NegInf, drop 9 s)
                    else Raise JSONDecodeError))"

fun scan_depth :: "nat \<Rightarrow> string \<Rightarrow> (pyval \<times> string) result" where
  "scan_depth 0 s = Raise RecursionError"
| "scan_depth (Suc n) s = scan_once (scan_depth n) s"

definition recursion_limit :: nat where
  "recursion_limit = 1000"

text \<open>\<open>json.loads\<close>: a text that starts with a byte order mark is refused; otherwise
  \<open>JSONDecoder.decode\<close> reads one value, with nothing but white space around it.\<close>

definition json_loads :: "string \<Rightarrow> pyval result" where
  "json_loads s =
     (if take 3 s = [CHR 0xEF, CHR 0xBB, CHR 0xBF] then Raise JSONDecodeError
      else (case scan_depth recursion_limit (skip_ws s) of
              Raise e \<Rightarrow> Raise e
            | Return (v, r) \<Rightarrow> if skip_ws r = [] then Return v else Raise JSONDecodeError))"

text \<open>\<open>json.load(f)\<close> is \<open>json.loads(f.read())\<close>, and \<open>f.read()\<close> decodes the file.\<close>

definition json_load_utf8 :: "string \<Rightarrow> pyval result" where
  "json_load_utf8 s = (if utf8_valid s then json_loads s else Raise UnicodeDecodeError)"

text \<open>A record all of whose keys and fields are strings without a lone surrogate, and a
  scanner that reads back the strings \<open>json_text\<close> writes.\<close>

fun is_PStr :: "pyval \<Rightarrow> bool" where
  "is_PStr (PStr s) = True"
| "is_PStr v = False"

fun is_text :: "pyval \<Rightarrow> bool" where
  "is_text (PStr s) = utf8_valid s"
| "is_text v = False"

definition string_record :: "pyval \<Rightarrow> bool" where
  "string_record s =
     (case s of
        PDict d \<Rightarrow> distinct (map fst d) \<and> list_all (\<lambda>(k, v). utf8_valid k \<and> is_text v) d
      | _ \<Rightarrow> False)"

text \<open>A scanner that consumes what it reads: the text left is shorter than the text
  given.\<close>

definition consumes :: "(string \<Rightarrow> ('a \<times> string) result) \<Rightarrow> bool" where
  "consumes f \<longleftrightarrow> (\<forall>s v r. f s = Return (v, r) \<longrightarrow> length r < length s)"

definition scans_strings :: "(string \<Rightarrow> (pyval \<times> string) result) \<Rightarrow> bool" where
  "scans_strings f \<longleftrightarrow>
     (\<forall>s t. f (CHR 0x22 # concat (map escape_char s) @ CHR 0x22 # t) = Return (PStr s, t))"

definition sample_lib :: pylib where
  "sample_lib =
     \<lparr>str_strip = ascii_strip, str_upper = ascii_upper, str_lower = ascii_lower,
      json_dump = json_dump_utf8, json_load = json_load_utf8\<rparr>"

subsection \<open>Sample states\<close>

definition alice :: pyval where
  "alice = student ''101'' ''Alice'' ''A'' ''15''"

definition bob :: pyval where
  "bob = student ''102'' ''Bob'' ''B'' ''16''"

text \<open>A state with the given records in memory, the given content of \<open>data.json\<close> and the
  given lines waiting on standard input.\<close>

definition start :: "pyval list \<Rightarrow> string option \<Rightarrow> string list \<Rightarrow> world" where
  "start xs content lines =
     \<lparr>students = xs, data_file = content, can_read = True, can_write = True,
      stdin = lines, stdout = []\<rparr>"

section \<open>Basic facts\<close>

lemmas io_defs = bind_def print_def ret_def lift_def input_line_def input_strip_def
  prompt_optional_def search_by_roll_def append_student_def validate_grade_def

lemmas sample_defs = sample_lib_def ascii_strip_def ascii_upper_def ascii_lower_def py_space_def
  start_def alice_def bob_def student_def quoted_def escape_char_def newline_indent_def

lemma py_eq_PStr [simp]: "py_eq v (PStr r) = (v = PStr r)"
  by (cases v) auto

lemma prompt_nonempty_line:
  "stdin w = l # ls \<Longrightarrow> str_strip L l \<noteq> [] \<Longrightarrow>
   prompt_nonempty L w = (Return (str_strip L l), w\<lparr>stdin := ls\<rparr>)"
  by (subst prompt_nonempty.simps) simp

lemma prompt_nonempty_students: "students (snd (prompt_nonempty L w)) = students w"
proof (induction L w rule: prompt_nonempty.induct)
  case (1 L w)
  show ?case
  proof (cases "stdin w")
    case Nil
    then show ?thesis by (subst prompt_nonempty.simps) simp
  next
    case (Cons l ls)
    show ?thesis
    proof (cases "str_strip L l = []")
      case True
      with Cons 1 [of l ls "str_strip L l"] show ?thesis
        by (subst prompt_nonempty.simps) simp
    next
      case False
      with Cons show ?thesis by (subst prompt_nonempty.simps) simp
    qed
  qed
qed

lemma prompt_nonempty_result:
  "prompt_nonempty L w = (r, w') \<Longrightarrow> students w' = students w"
  using prompt_nonempty_students [of L w] by simp

subsection \<open>The scan\<close>

lemma subscript_roll_Return:
  "subscript s ''roll_no'' = Return v \<longleftrightarrow> roll_of s = Some v"
  by (cases s) (auto simp: roll_of_def field_def split: option.splits)

lemma subscript_roll_Raise:
  "subscript s ''roll_no'' = Raise e \<Longrightarrow> roll_of s = None"
  by (cases s) (auto simp: roll_of_def field_def split: option.splits)

lemma subscript_roll: "roll_of s = Some v \<Longrightarrow> subscript s ''roll_no'' = Return v"
  by (simp add: subscript_roll_Return)

lemma roll_of_truthy: "roll_of s = Some v \<Longrightarrow> truthy s"
  by (cases s) (auto simp: roll_of_def field_def)

lemma search_loop_None_iff:
  "search_loop xs r = Return None \<longleftrightarrow> (\<forall>s\<in>set xs. \<exists>v. roll_of s = Some v \<and> v \<noteq> PStr r)"
  by (induction xs)
     (auto simp: subscript_roll_Return dest: subscript_roll_Raise
           split: result.splits option.splits if_splits)

lemma search_loop_Some:
  "search_loop xs r = Return (Some (i, s)) \<Longrightarrow>
     i < length xs \<and> xs ! i = s \<and> roll_of s = Some (PStr r) \<and>
     (\<forall>j<i. \<exists>v. roll_of (xs ! j) = Some v \<and> v \<noteq> PStr r)"
proof (induction xs arbitrary: i)
  case Nil
  then show ?case by simp
next
  case (Cons x xs)
  show ?case
  proof (cases "roll_of x = Some (PStr r)")
    case True
    with Cons.prems show ?thesis
      by (auto simp: subscript_roll)
  next
    case False
    with Cons.prems obtain v i' where v: "roll_of x = Some v" "v \<noteq> PStr r"
      and i': "search_loop xs r = Return (Some (i', s))" "i = Suc i'"
      by (auto simp: subscript_roll_Return split: result.splits option.splits if_splits)
    from Cons.IH [OF i'(1)] v i'(2) show ?thesis
      by (auto simp: less_Suc_eq_0_disj)
  qed
qed

lemma search_loop_total:
  "(\<forall>s\<in>set xs. roll_of s \<noteq> None) \<Longrightarrow> \<exists>r. search_loop xs roll = Return r"
  by (induction xs)
     (auto simp: subscript_roll_Return dest: subscript_roll_Raise
           split: result.splits option.splits if_splits)

lemma search_loop_finds:
  assumes "\<forall>s\<in>set xs. roll_of s \<noteq> None" and "\<exists>s\<in>set xs. roll_of s = Some (PStr r)"
  shows "\<exists>i s. search_loop xs r = Return (Some (i, s))"
proof -
  from search_loop_total [OF assms(1)] obtain res where res: "search_loop xs r = Return res"
    by blast
  have "search_loop xs r \<noteq> Return None"
    using assms(2) unfolding search_loop_None_iff by fastforce
  with res show ?thesis by (cases res) auto
qed

lemma search_found: "search_loop xs r = Return res \<Longrightarrow> found res \<longleftrightarrow> res \<noteq> None"
proof (cases res)
  case None
  then show ?thesis by simp
next
  case (Some p)
  assume "search_loop xs r = Return res"
  with Some have "search_loop xs r = Return (Some (fst p, snd p))" by simp
  from search_loop_Some [OF this] have "truthy (snd p)"
    using roll_of_truthy by blast
  with Some show ?thesis by (cases p) simp
qed

lemma search_not_found: "search_loop xs r = Return res \<Longrightarrow> \<not> found res \<Longrightarrow> res = None"
  using search_found by blast

lemma search_loop_append_fresh:
  "search_loop xs r = Return None \<Longrightarrow>
   search_loop (xs @ [student r n g a]) r = Return (Some (length xs, student r n g a))"
  by (induction xs) (auto simp: student_def split: result.splits option.splits if_splits)

subsection \<open>Saving\<close>

text \<open>\<open>save_data\<close> never changes the list, it returns unless \<open>json.dump\<close> raises an
  exception it does not catch, and once the file is open the file holds what
  \<open>json.dump\<close> wrote.\<close>

lemma save_data_students [simp]: "students (snd (save_data L w)) = students w"
  by (simp add: save_data_def split: prod.splits option.splits)

lemma save_data_result: "save_data L w = (r, w') \<Longrightarrow> students w' = students w"
  using save_data_students [of L w] by simp

lemma save_print_students [simp]:
  "students (snd (bind (save_data L) (\<lambda>_. print m) w)) = students w"
  by (simp add: save_data_def bind_def print_def split: prod.splits option.splits)

lemma save_print_file:
  "data_file (snd (bind (save_data L) (\<lambda>_. print m) w)) =
     (if can_write w then Some (fst (json_dump L (PList (students w)))) else data_file w)"
  by (simp add: save_data_def bind_def print_def split: prod.splits option.splits)

lemma save_print_returns:
  assumes "can_write w \<longrightarrow> \<not> dump_raises L (students w)"
  shows "fst (bind (save_data L) (\<lambda>_. print m) w) = Return ()"
    and "stdout (snd (bind (save_data L) (\<lambda>_. print m) w)) =
           stdout w @
           (if can_write w \<and> snd (json_dump L (PList (students w))) = None then []
            else [ErrCouldNotSave]) @ [m]"
  using assms
  by (auto simp: save_data_def bind_def print_def dump_raises_def
      split: prod.splits option.splits)

section \<open>Writing valid UTF-8\<close>

lemma utf8_valid_ascii_Cons:
  "(of_char a :: nat) < 128 \<Longrightarrow> utf8_valid (a # s) = utf8_valid s"
  by (simp add: utf8_valid.simps trail_def)

lemma utf8_valid_ascii_append:
  "list_all (\<lambda>c. (of_char c :: nat) < 128) p \<Longrightarrow> utf8_valid (p @ s) = utf8_valid s"
  by (induction p) (simp_all add: utf8_valid_ascii_Cons)

lemma utf8_valid_append:
  "utf8_valid a \<Longrightarrow> utf8_valid (a @ b) = utf8_valid b"
proof (induction a rule: utf8_valid.induct)
  case 1
  then show ?case by simp
next
  case (2 a s)
  from "2.prems" obtain n where n: "trail (of_char a) = Some n" "n \<le> length s"
      "utf8_valid (drop n s)" "list_all cont_byte (take n s)"
      "n = 0 \<or> second_byte (of_char a) (hd s)"
    by (auto simp: utf8_valid.simps split: option.splits if_splits)
  from "2.IH" [OF n(1) n(3)] have IH: "utf8_valid (drop n s @ b) = utf8_valid b" .
  have hd: "hd (s @ b) = hd s" if "n \<noteq> 0"
    using that n(2) by (cases s) auto
  have "utf8_valid (a # (s @ b)) = utf8_valid b"
    using n IH hd by (subst utf8_valid.simps) auto
  then show ?case by simp
qed

lemma utf8_valid_concat: "list_all utf8_valid cs \<Longrightarrow> utf8_valid (concat cs)"
  by (induction cs) (simp_all add: utf8_valid_append)

lemma hex_char_ascii: "\<forall>k<16. (of_char (''0123456789abcdef'' ! k) :: nat) < 128"
  by (simp add: eval_nat_numeral All_less_Suc)

lemma escape_char_ascii:
  assumes "(of_char c :: nat) < 128"
  shows "list_all (\<lambda>c. (of_char c :: nat) < 128) (escape_char c)"
proof -
  define hi where "hi = ''0123456789abcdef'' ! (of_char c div 16)"
  define lo where "lo = ''0123456789abcdef'' ! (of_char c mod 16)"
  have "(of_char c :: nat) div 16 < 16" and "(of_char c :: nat) mod 16 < 16"
    using assms by simp_all
  with hex_char_ascii have b: "(of_char hi :: nat) < 128" "(of_char lo :: nat) < 128"
    unfolding hi_def lo_def by blast+
  have "escape_char c =
     (if c = CHR 0x22 then [CHR 0x5C, CHR 0x22]
      else if c = CHR 0x5C then [CHR 0x5C, CHR 0x5C]
      else if c = CHR 0x0A then [CHR 0x5C, CHR ''n'']
      else if c = CHR 0x0D then [CHR 0x5C, CHR ''r'']
      else if c = CHR 0x09 then [CHR 0x5C, CHR ''t'']
      else if c = CHR 0x08 then [CHR 0x5C, CHR ''b'']
      else if c = CHR 0x0C then [CHR 0x5C, CHR ''f'']
      else if (of_char c :: nat) < 32
      then [CHR 0x5C, CHR ''u'', CHR ''0'', CHR ''0'', hi, lo]
      else [c])"
    unfolding escape_char_def hi_def lo_def ..
  with assms b show ?thesis by simp
qed

lemma escape_char_high:
  assumes "128 \<le> (of_char c :: nat)"
  shows "escape_char c = [c]"
proof -
  have "c \<noteq> x" if "(of_char x :: nat) < 128" for x :: char
    using assms that by auto
  from this [of "CHR 0x22"] this [of "CHR 0x5C"] this [of "CHR 0x0A"] this [of "CHR 0x0D"]
    this [of "CHR 0x09"] this [of "CHR 0x08"] this [of "CHR 0x0C"]
  have "c \<noteq> CHR 0x22" "c \<noteq> CHR 0x5C" "c \<noteq> CHR 0x0A" "c \<noteq> CHR 0x0D"
    "c \<noteq> CHR 0x09" "c \<noteq> CHR 0x08" "c \<noteq> CHR 0x0C"
    by auto
  with assms show ?thesis by (simp add: escape_char_def)
qed

lemma escape_high:
  "list_all cont_byte p \<Longrightarrow> concat (map escape_char p) = p"
  by (induction p) (simp_all add: escape_char_high cont_byte_def)

lemma utf8_valid_escaped: "utf8_valid s \<Longrightarrow> utf8_valid (concat (map escape_char s))"
proof (induction s rule: utf8_valid.induct)
  case 1
  then show ?case by simp
next
  case (2 a s)
  from "2.prems" obtain n where n: "trail (of_char a) = Some n" "n \<le> length s"
      "utf8_valid (drop n s)" "list_all cont_byte (take n s)"
      "n = 0 \<or> second_byte (of_char a) (hd s)"
    by (auto simp: utf8_valid.simps split: option.splits if_splits)
  from "2.IH" [OF n(1) n(3)] have IH: "utf8_valid (concat (map escape_char (drop n s)))" .
  show ?case
  proof (cases "(of_char a :: nat) < 128")
    case True
    with n(1) have "n = 0" by (simp add: trail_def)
    with IH True show ?thesis
      by (simp add: utf8_valid_ascii_append escape_char_ascii)
  next
    case False
    with n(1) have n0: "n \<noteq> 0" by (auto simp: trail_def split: if_splits)
    have "concat (map escape_char s) =
        concat (map escape_char (take n s)) @ concat (map escape_char (drop n s))"
      by (metis append_take_drop_id concat_append map_append)
    then have c: "concat (map escape_char s) = take n s @ concat (map escape_char (drop n s))"
      by (simp add: escape_high n(4))
    from n0 n(2) have hd: "hd (take n s @ t) = hd s" for t
      by (cases s) auto
    from False n n0 IH show ?thesis
      by (simp add: escape_char_high c utf8_valid.simps hd)
  qed
qed

lemma utf8_valid_quoted: "utf8_valid s \<Longrightarrow> utf8_valid (quoted s)"
  by (simp add: quoted_def utf8_valid_ascii_Cons utf8_valid_append utf8_valid_escaped)

lemma utf8_valid_newline_indent: "utf8_valid (newline_indent n)"
proof -
  have "list_all (\<lambda>c. (of_char c :: nat) < 128) (newline_indent n)"
    by (simp add: newline_indent_def list_all_iff)
  from utf8_valid_ascii_append [OF this, of "[]"] show ?thesis by simp
qed

lemma concat_chunks:
  "concat (json_chunks lvl v) = json_text lvl v"
  "concat (list_chunks lvl buf xs) = (if xs = [] then [] else buf @ json_items lvl xs)"
  "concat (dict_chunks lvl first d) =
     (if d = [] then []
      else (if first then [] else '','' @ newline_indent lvl) @ json_members lvl d)"
  by (induction lvl v and lvl buf xs and lvl first d
      rule: json_chunks_list_chunks_dict_chunks.induct) auto

lemma write_chunks_valid: "list_all utf8_valid cs \<Longrightarrow> write_chunks cs = (concat cs, None)"
  by (induction cs) simp_all

lemma utf8_valid_sep:
  "utf8_valid (CHR '','' # newline_indent n)" "utf8_valid (CHR ''['' # newline_indent n)"
  by (simp_all add: utf8_valid_ascii_Cons utf8_valid_newline_indent)

lemma dict_chunks_valid:
  "list_all (\<lambda>(k, v). utf8_valid k \<and> is_text v) d \<Longrightarrow>
   list_all utf8_valid (dict_chunks lvl first d)"
proof (induction d arbitrary: first)
  case Nil
  then show ?case by simp
next
  case (Cons p d)
  then obtain k t where p: "p = (k, PStr t)" "utf8_valid k" "utf8_valid t"
    by (cases p; cases "snd p") auto
  from Cons show ?case
    by (simp add: p utf8_valid_quoted utf8_valid_sep utf8_valid_ascii_Cons
        utf8_valid_newline_indent)
qed

lemma record_chunks_valid:
  "string_record s \<Longrightarrow> list_all utf8_valid (json_chunks lvl s)"
  by (cases s)
     (auto simp: string_record_def dict_chunks_valid utf8_valid_newline_indent
        utf8_valid_ascii_Cons)

lemma string_record_container: "string_record s \<Longrightarrow> is_container s"
  by (cases s) (auto simp: string_record_def)

lemma list_chunks_valid:
  "list_all string_record xs \<Longrightarrow> utf8_valid buf \<Longrightarrow>
   list_all utf8_valid (list_chunks lvl buf xs)"
  by (induction xs arbitrary: buf)
     (simp_all add: string_record_container record_chunks_valid utf8_valid_sep)

lemma records_chunks_valid:
  "list_all string_record xs \<Longrightarrow> list_all utf8_valid (json_chunks 0 (PList xs))"
  by (simp add: list_chunks_valid utf8_valid_sep utf8_valid_newline_indent
      utf8_valid_ascii_Cons)

text \<open>A list of records of strings is written in full, as \<open>json_text\<close> gives it, and what
  is written is valid UTF-8.\<close>

lemma json_dump_records:
  "list_all string_record xs \<Longrightarrow> json_dump_utf8 (PList xs) = (json_text 0 (PList xs), None)"
  using write_chunks_valid [OF records_chunks_valid, of xs] concat_chunks(1) [of 0 "PList xs"]
  by (simp add: json_dump_utf8_def)

lemma json_text_records_valid:
  "list_all string_record xs \<Longrightarrow> utf8_valid (json_text 0 (PList xs))"
  using utf8_valid_concat [OF records_chunks_valid, of xs] concat_chunks(1) [of 0 "PList xs"]
  by simp

text \<open>With the sample library, saving a list of records of strings does not raise.\<close>

lemma sample_dump_records:
  assumes "list_all string_record xs"
  shows "json_dump sample_lib (PList xs) = (json_text 0 (PList xs), None)"
    and "\<not> dump_raises sample_lib xs"
  using json_dump_records [OF assms] by (simp_all add: sample_lib_def dump_raises_def)

lemma string_record_student:
  "utf8_valid r \<Longrightarrow> utf8_valid n \<Longrightarrow> utf8_valid g \<Longrightarrow> utf8_valid a \<Longrightarrow>
   string_record (student r n g a)"
  by (simp add: string_record_def student_def utf8_valid_ascii_Cons)

lemma sample_records [simp]: "string_record alice" "string_record bob"
  by (simp_all add: alice_def bob_def string_record_student utf8_valid_ascii_Cons)

section \<open>Adding a student\<close>

lemma add_student_effect:
  assumes "stdin w = roll # name # grade # age # rest"
    and "str_strip L roll \<noteq> []" and "str_strip L name \<noteq> []" and "str_strip L grade \<noteq> []"
    and "search_loop (students w) (str_strip L roll) = Return None"
  defines "ys \<equiv> students w @ [student (str_strip L roll) (str_strip L name)
                                (str_upper L (str_strip L grade)) (str_strip L age)]"
  shows "add_student L w =
           bind (save_data L) (\<lambda>_. print OkAdded)
             (w\<lparr>stdout := stdout w @ [AddBanner], stdin := rest, students := ys\<rparr>)"
  using assms(1-5)
  by (simp add: add_student_def io_defs prompt_nonempty_line ys_def)

lemma add_student_duplicate:
  assumes "stdin w = l # rest" and "str_strip L l \<noteq> []"
    and "\<exists>s\<in>set (students w). roll_of s = Some (PStr (str_strip L l))"
  shows "students (snd (add_student L w)) = students w \<and>
         data_file (snd (add_student L w)) = data_file w \<and>
         ((\<forall>s\<in>set (students w). roll_of s \<noteq> None) \<longrightarrow>
            add_student L w =
              (Return (), w\<lparr>stdin := rest, stdout := stdout w @ [AddBanner, ErrDuplicate]\<rparr>))"
proof -
  let ?r = "str_strip L l"
  have ne: "search_loop (students w) ?r \<noteq> Return None"
    using assms(3) unfolding search_loop_None_iff by fastforce
  show ?thesis
  proof (cases "search_loop (students w) ?r")
    case (Raise e)
    have "\<not> (\<forall>s\<in>set (students w). roll_of s \<noteq> None)"
    proof
      assume "\<forall>s\<in>set (students w). roll_of s \<noteq> None"
      from search_loop_total [OF this, of ?r] Raise show False by auto
    qed
    with Raise assms(1,2) show ?thesis
      by (simp add: add_student_def io_defs prompt_nonempty_line)
  next
    case (Return res)
    with ne obtain i s where res: "res = Some (i, s)" by (cases res) auto
    with Return have "truthy s"
      using search_loop_Some roll_of_truthy by blast
    with Return res assms(1,2) show ?thesis
      by (simp add: add_student_def io_defs prompt_nonempty_line)
  qed
qed

text \<open>
  C1 (as amended). When the roll number typed is not in the collection and roll number,
  name and grade are not blank, \<open>add_student\<close> appends one record and \<open>search_by_roll\<close>
  then returns it: it holds the trimmed roll number, name and age that were typed, and
  the upper-cased grade. \<open>add_student\<close> itself ends normally unless \<open>json.dump\<close>
  raises an exception that \<open>save_data\<close> does not catch.
\<close>

theorem add_then_find:
  assumes "stdin w = roll # name # grade # age # rest"
    and "str_strip L roll \<noteq> []" and "str_strip L name \<noteq> []" and "str_strip L grade \<noteq> []"
    and "search_loop (students w) (str_strip L roll) = Return None"
  shows "students (snd (add_student L w)) =
           students w @ [student (str_strip L roll) (str_strip L name)
                           (str_upper L (str_strip L grade)) (str_strip L age)] \<and>
         fst (search_by_roll (str_strip L roll) (snd (add_student L w))) =
           Return (Some (length (students w),
             student (str_strip L roll) (str_strip L name)
               (str_upper L (str_strip L grade)) (str_strip L age))) \<and>
         ((can_write w \<longrightarrow> \<not> dump_raises L (students (snd (add_student L w)))) \<longrightarrow>
            fst (add_student L w) = Return ())"
  using assms
  by (simp add: add_student_effect search_by_roll_def search_loop_append_fresh
      save_print_returns)

theorem add_then_find_witness:
  "search_loop [bob] ''101'' = Return None \<and> \<not> dump_raises sample_lib [bob, alice] \<and>
   fst (add_student sample_lib (start [bob] None [''101'', ''Alice'', ''A'', ''15''])) = Return () \<and>
   students (snd (add_student sample_lib (start [bob] None [''101'', ''Alice'', ''A'', ''15'']))) =
     [bob, alice] \<and>
   fst (search_by_roll ''101''
          (snd (add_student sample_lib (start [bob] None [''101'', ''Alice'', ''A'', ''15''])))) =
     Return (Some (1, alice))"
proof -
  have ok: "\<not> dump_raises sample_lib [bob, alice]"
    by (rule sample_dump_records) simp
  have s: "ascii_strip ''101'' = ''101''" "ascii_strip ''Alice'' = ''Alice''"
    "ascii_strip ''A'' = ''A''" "ascii_strip ''15'' = ''15''" "ascii_upper ''A'' = ''A''"
    by (simp_all add: sample_defs)
  have n: "search_loop [bob] ''101'' = Return None"
    by (simp add: bob_def student_def)
  from add_then_find [of "start [bob] None [''101'', ''Alice'', ''A'', ''15'']" "''101''"
      "''Alice''" "''A''" "''15''" "[]" sample_lib] ok n s
  show ?thesis
    by (simp add: start_def sample_lib_def alice_def)
qed

text \<open>
  C1 as stated fails: the record typed with grade \<open>a\<close> is found with grade \<open>A\<close>, so what
  \<open>search_by_roll\<close> returns is not equal to the record given.
\<close>

theorem add_then_find_counterexample:
  "fst (search_by_roll ''101''
          (snd (add_student sample_lib (start [] None [''101'', ''Alice'', ''a'', ''15''])))) =
     Return (Some (0, student ''101'' ''Alice'' ''A'' ''15'')) \<and>
   student ''101'' ''Alice'' ''A'' ''15'' \<noteq> student ''101'' ''Alice'' ''a'' ''15''"
  by (simp add: sample_defs add_student_def io_defs prompt_nonempty_line save_data_def
      split: prod.splits option.splits)

text \<open>
  C4. When the roll number typed is the roll number of a record of the collection,
  \<open>add_student\<close> leaves the collection as it was and does not touch \<open>data.json\<close>; when
  every element carries a roll number it ends normally after printing the rejection.
\<close>

theorem add_duplicate_rejected:
  assumes "stdin w = l # rest" and "str_strip L l \<noteq> []"
    and "\<exists>s\<in>set (students w). roll_of s = Some (PStr (str_strip L l))"
  shows "students (snd (add_student L w)) = students w \<and>
         length (students (snd (add_student L w))) = length (students w) \<and>
         data_file (snd (add_student L w)) = data_file w \<and>
         ((\<forall>s\<in>set (students w). roll_of s \<noteq> None) \<longrightarrow>
            add_student L w =
              (Return (), w\<lparr>stdin := rest, stdout := stdout w @ [AddBanner, ErrDuplicate]\<rparr>))"
  using add_student_duplicate [OF assms] by simp

theorem add_duplicate_rejected_witness:
  "roll_of alice = Some (PStr ''101'') \<and>
   add_student sample_lib (start [alice] None [''101'', ''Eve'', ''B'', ''17'']) =
     (Return (), \<lparr>students = [alice], data_file = None, can_read = True, can_write = True,
                   stdin = [''Eve'', ''B'', ''17''], stdout = [AddBanner, ErrDuplicate]\<rparr>)"
  using add_duplicate_rejected [of "start [alice] None [''101'', ''Eve'', ''B'', ''17'']"
      "''101''" "[''Eve'', ''B'', ''17'']" sample_lib]
  by (simp add: sample_defs roll_of_def field_def)

section \<open>Deleting a student\<close>

lemma is_str_iff: "is_str v \<longleftrightarrow> (\<exists>s. v = Some (PStr s))"
  by (cases v rule: is_str.cases) auto

lemma is_student_dict:
  assumes "is_student s"
  obtains d rl n g a where "s = PDict d" and "distinct (map fst d)"
    and "map_of d ''roll_no'' = Some (PStr rl)" and "map_of d ''name'' = Some (PStr n)"
    and "map_of d ''grade'' = Some (PStr g)" and "map_of d ''age'' = Some (PStr a)"
  using assms by (cases s) (auto simp: is_student_def is_str_iff)

lemma is_student_roll: "is_student s \<Longrightarrow> roll_of s \<noteq> None"
  by (erule is_student_dict) (simp add: roll_of_def field_def)

lemma py_eq_items_member:
  "py_eq_items d e \<Longrightarrow> (k, v) \<in> set d \<Longrightarrow> \<exists>u. map_of e k = Some u \<and> py_eq v u"
  by (induction d) (auto split: option.splits)

text \<open>A record equal to one with roll number \<open>r\<close> has roll number \<open>r\<close> itself.\<close>

lemma py_eq_same_roll:
  assumes eq: "py_eq x s" and x: "is_student x" and s: "roll_of s = Some (PStr r)"
  shows "roll_of x = Some (PStr r)"
proof -
  from x obtain d where d: "x = PDict d" "distinct (map fst d)"
    by (cases x) (auto simp: is_student_def)
  from eq d obtain e where e: "s = PDict e" "length d = length e" "py_eq_items d e"
    by (cases s) auto
  have sub: "set (map fst d) \<subseteq> set (map fst e)"
  proof
    fix k assume "k \<in> set (map fst d)"
    then obtain v where "(k, v) \<in> set d" by auto
    from py_eq_items_member [OF e(3) this] obtain u where "map_of e k = Some u" by blast
    then show "k \<in> set (map fst e)"
      by (metis map_of_SomeD fst_conv image_eqI set_map)
  qed
  have "card (set (map fst e)) \<le> length e"
    by (metis card_length length_map)
  also have "\<dots> = card (set (map fst d))"
    using distinct_card [OF d(2)] e(2) by simp
  finally have "set (map fst d) = set (map fst e)"
    using sub by (simp add: card_seteq)
  moreover from s e have roll: "map_of e ''roll_no'' = Some (PStr r)"
    by (simp add: roll_of_def field_def)
  then have "''roll_no'' \<in> set (map fst e)"
    by (metis map_of_SomeD fst_conv image_eqI set_map)
  ultimately have "''roll_no'' \<in> set (map fst d)" by simp
  then obtain v where v: "(''roll_no'', v) \<in> set d" by auto
  from py_eq_items_member [OF e(3) v] roll have "v = PStr r" by simp
  with v d show ?thesis
    by (simp add: roll_of_def field_def)
qed

lemma list_remove_at:
  "i < length xs \<Longrightarrow> \<forall>j<i. \<not> py_eq (xs ! j) s \<Longrightarrow>
   list_remove xs i s = Return (take i xs @ drop (Suc i) xs)"
proof (induction xs arbitrary: i)
  case Nil
  then show ?case by simp
next
  case (Cons x xs)
  show ?case
  proof (cases i)
    case 0
    then show ?thesis by simp
  next
    case (Suc k)
    with Cons.prems have "k < length xs" and "\<forall>j<k. \<not> py_eq (xs ! j) s" and "\<not> py_eq x s"
      by auto
    with Cons.IH [of k] Suc show ?thesis by simp
  qed
qed

lemma set_map_filter: "set (List.map_filter f xs) = {y. \<exists>x\<in>set xs. f x = Some y}"
  by (force simp: List.map_filter_def)

lemma unique_rolls_Cons:
  "unique_rolls (x # xs) \<longleftrightarrow>
     (case roll_of x of None \<Rightarrow> True | Some v \<Rightarrow> \<forall>y\<in>set xs. roll_of y \<noteq> Some v) \<and>
     unique_rolls xs"
  by (auto simp: unique_rolls_def List.map_filter_simps set_map_filter split: option.splits)

lemma unique_rolls_nth:
  "unique_rolls xs \<Longrightarrow> i < j \<Longrightarrow> j < length xs \<Longrightarrow> roll_of (xs ! i) = Some v \<Longrightarrow>
   roll_of (xs ! j) \<noteq> Some v"
proof (induction xs arbitrary: i j)
  case Nil
  then show ?case by simp
next
  case (Cons x xs)
  from Cons.prems(2) obtain j' where j: "j = Suc j'" by (cases j) auto
  show ?case
  proof (cases i)
    case 0
    with Cons.prems j show ?thesis
      by (auto simp: unique_rolls_Cons)
  next
    case (Suc i')
    from Cons.prems(1) have "unique_rolls xs"
      by (simp add: unique_rolls_Cons)
    from Cons.IH [OF this, of i' j'] Cons.prems Suc j show ?thesis by simp
  qed
qed

text \<open>
  C5. In a collection of student records with unique roll numbers, after deleting an
  existing roll number with the deletion confirmed, \<open>search_by_roll\<close> returns \<open>None\<close>
  for that roll number and the collection has exactly one record less. \<open>delete_student\<close>
  itself ends normally unless \<open>json.dump\<close> raises an exception that \<open>save_data\<close> does
  not catch.
\<close>

theorem delete_then_find:
  assumes "stdin w = l # c # rest" and "str_strip L l \<noteq> []"
    and "str_lower L (str_strip L c) = ''y''"
    and "\<forall>s\<in>set (students w). is_student s" and "unique_rolls (students w)"
    and "\<exists>s\<in>set (students w). roll_of s = Some (PStr (str_strip L l))"
  shows "fst (search_by_roll (str_strip L l) (snd (delete_student L w))) = Return None \<and>
         Suc (length (students (snd (delete_student L w)))) = length (students w) \<and>
         ((can_write w \<longrightarrow> \<not> dump_raises L (students (snd (delete_student L w)))) \<longrightarrow>
            fst (delete_student L w) = Return ())"
proof -
  let ?xs = "students w" and ?r = "str_strip L l"
  let ?ys = "\<lambda>i. take i ?xs @ drop (Suc i) ?xs"
  have rolls: "\<forall>s\<in>set ?xs. roll_of s \<noteq> None"
    using assms(4) is_student_roll by blast
  from search_loop_finds [OF rolls assms(6)] obtain i s
    where found: "search_loop ?xs ?r = Return (Some (i, s))" by blast
  from search_loop_Some [OF found]
  have i: "i < length ?xs" and s: "?xs ! i = s" and rs: "roll_of s = Some (PStr ?r)"
    and before: "\<forall>j<i. \<exists>v. roll_of (?xs ! j) = Some v \<and> v \<noteq> PStr ?r"
    by auto
  from i s assms(4) have "is_student s" by (metis nth_mem)
  then obtain v where name: "subscript s ''name'' = Return v"
    by (auto elim!: is_student_dict)
  have roll: "subscript s ''roll_no'' = Return (PStr ?r)"
    using rs by (rule subscript_roll)
  have tr: "truthy s" using rs by (rule roll_of_truthy)
  have "\<forall>j<i. \<not> py_eq (?xs ! j) s"
  proof (intro allI impI notI)
    fix j assume j: "j < i" and eq: "py_eq (?xs ! j) s"
    from j i assms(4) have "is_student (?xs ! j)" by simp
    from py_eq_same_roll [OF eq this rs] before j show False by auto
  qed
  from list_remove_at [OF i this] have rem: "list_remove ?xs i s = Return (?ys i)" .
  have del: "delete_student L w =
      bind (save_data L) (\<lambda>_. print OkDeleted)
        (w\<lparr>stdout := stdout w @ [DeleteBanner], stdin := rest, students := ?ys i\<rparr>)"
    using assms(1,2,3) found name roll tr rem
    by (simp add: delete_student_def io_defs remove_student_def prompt_nonempty_line)
  have none: "search_loop (?ys i) ?r = Return None"
    unfolding search_loop_None_iff
  proof
    fix x assume "x \<in> set (?ys i)"
    then consider (lo) "x \<in> set (take i ?xs)" | (hi) "x \<in> set (drop (Suc i) ?xs)" by auto
    then show "\<exists>v. roll_of x = Some v \<and> v \<noteq> PStr ?r"
    proof cases
      case lo
      then obtain j where "j < i" "x = ?xs ! j"
        using i by (auto simp: in_set_conv_nth)
      with before show ?thesis by auto
    next
      case hi
      then obtain n where "n < length ?xs - Suc i" "x = ?xs ! (Suc i + n)"
        by (auto simp: in_set_conv_nth)
      then have "\<exists>k. Suc i + k < length ?xs \<and> x = ?xs ! (Suc i + k)"
        by (intro exI [of _ n]) auto
      then obtain k where k: "Suc i + k < length ?xs" "x = ?xs ! (Suc i + k)"
        by blast
      from unique_rolls_nth [OF assms(5) _ k(1), of i "PStr ?r"] s rs k(2)
      have "roll_of x \<noteq> Some (PStr ?r)" by simp
      moreover from k rolls have "roll_of x \<noteq> None" by (metis nth_mem)
      ultimately show ?thesis by auto
    qed
  qed
  from i have "Suc (length (?ys i)) = length ?xs" by simp
  with del none show ?thesis
    by (simp add: search_by_roll_def save_print_returns)
qed

theorem delete_then_find_witness:
  "is_student alice \<and> is_student bob \<and> unique_rolls [alice, bob] \<and>
   \<not> dump_raises sample_lib [bob] \<and>
   fst (delete_student sample_lib (start [alice, bob] None [''101'', ''y''])) = Return () \<and>
   fst (search_by_roll ''101''
          (snd (delete_student sample_lib (start [alice, bob] None [''101'', ''y''])))) =
     Return None \<and>
   Suc (length (students
          (snd (delete_student sample_lib (start [alice, bob] None [''101'', ''y''])))))
     = 2 \<and>
   students (snd (delete_student sample_lib (start [alice, bob] None [''101'', ''y'']))) = [bob]"
proof -
  let ?w = "start [alice, bob] None [''101'', ''y'']"
  have ok: "\<not> dump_raises sample_lib [bob]"
    by (rule sample_dump_records) simp
  have st: "students (snd (delete_student sample_lib ?w)) = [bob]"
    by (simp add: sample_defs delete_student_def io_defs remove_student_def
        prompt_nonempty_line save_data_def split: prod.splits option.splits)
  from delete_then_find [of ?w "''101''" "''y''" "[]" sample_lib] ok st
  show ?thesis
    by (simp add: sample_defs is_student_def unique_rolls_def List.map_filter_simps roll_of_def
        field_def)
qed

section \<open>Updating a student\<close>

text \<open>What \<open>update_student\<close> does once the record is found and carries a name and a
  grade: every step of it, for any four lines typed.\<close>

lemma update_student_effect:
  assumes inp: "stdin w = l # n # g # a # rest" and l: "str_strip L l \<noteq> []"
    and found: "search_loop (students w) (str_strip L l) = Return (Some (i, PDict d))"
    and name: "map_of d ''name'' = Some vn" and grade: "map_of d ''grade'' = Some vg"
  defines "d1 \<equiv> (if str_strip L n \<noteq> [] then AList.update ''name'' (PStr (str_strip L n)) d else d)"
  defines "d2 \<equiv> (if str_strip L g \<noteq> []
                  then AList.update ''grade'' (PStr (str_upper L (str_strip L g))) d1 else d1)"
  defines "ys \<equiv> (students w)[i := PDict (AList.update ''age'' (PStr (str_strip L a)) d2)]"
  shows "update_student L w =
           bind (save_data L) (\<lambda>_. print OkUpdated)
             (w\<lparr>stdout := stdout w @ [UpdateBanner, CurrentValues], stdin := rest,
                students := ys\<rparr>)"
proof -
  from search_loop_Some [OF found] have i: "i < length (students w)" "students w ! i = PDict d"
    by auto
  have tr: "d \<noteq> []" using name by auto
  show ?thesis
    using inp l found name grade i tr
    by (simp add: update_student_def io_defs store_item_def prompt_nonempty_line Let_def
        d1_def d2_def ys_def split: option.splits)
qed

text \<open>The spec's scenario: a new age and nothing else typed changes the age only.\<close>

lemma update_age_only:
  "students (snd (update_student sample_lib (start [alice] None [''101'', [], [], ''16'']))) =
     [student ''101'' ''Alice'' ''A'' ''16'']"
  using
    update_student_effect [of "start [alice] None [''101'', [], [], ''16'']" "''101''"
      "[]" "[]" "''16''" "[]" sample_lib 0 _ "PStr ''Alice''" "PStr ''A''"]
  by (simp add: sample_defs)

text \<open>
  C2: the code at the claim's own inputs. With all three fields left blank, and with only
  a new name typed, the record's age \<open>15\<close> is replaced by the empty string: line 174
  tests \<open>new_age or new_age == ""\<close>, which is always true, so the age typed is always
  stored, blank or not.
\<close>

theorem update_blank_clears_age:
  "students (snd (update_student sample_lib (start [alice] None [''101'', [], [], []]))) =
     [student ''101'' ''Alice'' ''A'' []] \<and>
   students (snd (update_student sample_lib
                    (start [alice] None [''101'', ''Alicia'', [], []]))) =
     [student ''101'' ''Alicia'' ''A'' []]"
  using
    update_student_effect [of "start [alice] None [''101'', [], [], []]" "''101''"
      "[]" "[]" "[]" "[]" sample_lib 0 _ "PStr ''Alice''" "PStr ''A''"]
    update_student_effect [of "start [alice] None [''101'', ''Alicia'', [], []]" "''101''"
      "''Alicia''" "[]" "[]" "[]" sample_lib 0 _ "PStr ''Alice''" "PStr ''A''"]
  by (simp add: sample_defs)

theorem update_blank_clears_age_witness:
  "students (snd (update_student sample_lib (start [alice] None [''101'', [], [], []]))) \<noteq>
     [alice] \<and>
   field (hd (students (snd (update_student sample_lib
            (start [alice] None [''101'', ''Alicia'', [], []]))))) ''age'' \<noteq>
     field alice ''age''"
  using update_blank_clears_age by (simp add: alice_def student_def field_def)

text \<open>
  C3 (as amended). A grade that is blank after trimming does not abort the update: the
  found record keeps its grade, a name that is not blank is still stored, and the changed
  collection is handed to \<open>json.dump\<close> when \<open>data.json\<close> can be opened for writing.
  Unless \<open>json.dump\<close> raises an exception that \<open>save_data\<close> does not catch, the
  operation ends normally with the success message.
\<close>

theorem update_blank_grade_not_aborted:
  assumes "stdin w = l # n # g # a # rest" and "str_strip L l \<noteq> []"
    and "search_loop (students w) (str_strip L l) = Return (Some (i, s))"
    and "is_student s" and "str_strip L g = []"
  shows "field (students (snd (update_student L w)) ! i) ''grade'' = field s ''grade'' \<and>
         field (students (snd (update_student L w)) ! i) ''name'' =
           (if str_strip L n = [] then field s ''name'' else Some (PStr (str_strip L n))) \<and>
         (can_write w \<longrightarrow>
            data_file (snd (update_student L w)) =
              Some (fst (json_dump L (PList (students (snd (update_student L w))))))) \<and>
         ((can_write w \<longrightarrow> \<not> dump_raises L (students (snd (update_student L w)))) \<longrightarrow>
            fst (update_student L w) = Return () \<and>
            stdout (snd (update_student L w)) =
              stdout w @ [UpdateBanner, CurrentValues] @
              (if can_write w \<and>
                  snd (json_dump L (PList (students (snd (update_student L w))))) = None
               then [] else [ErrCouldNotSave]) @ [OkUpdated])"
proof -
  from assms(4) obtain d vn vg where d: "s = PDict d" "map_of d ''name'' = Some vn"
      "map_of d ''grade'' = Some vg"
    by (auto elim!: is_student_dict)
  from search_loop_Some [OF assms(3)] have i: "i < length (students w)" by simp
  from assms(3) d have "search_loop (students w) (str_strip L l) = Return (Some (i, PDict d))"
    by simp
  from update_student_effect [OF assms(1,2) this d(2,3)] i d assms(5) show ?thesis
    by (simp add: field_def update_conv' save_print_file save_print_returns)
qed

theorem update_blank_grade_not_aborted_witness:
  "search_loop [alice] ''101'' = Return (Some (0, alice)) \<and> is_student alice \<and>
   str_strip sample_lib ''  '' = [] \<and>
   \<not> dump_raises sample_lib [student ''101'' ''Bob'' ''A'' ''15''] \<and>
   fst (update_student sample_lib (start [alice] None [''101'', ''Bob'', ''  '', ''15''])) =
     Return () \<and>
   field (students (snd (update_student sample_lib
            (start [alice] None [''101'', ''Bob'', ''  '', ''15'']))) ! 0) ''grade'' =
     Some (PStr ''A'') \<and>
   field (students (snd (update_student sample_lib
            (start [alice] None [''101'', ''Bob'', ''  '', ''15'']))) ! 0) ''name'' =
     Some (PStr ''Bob'') \<and>
   stdout (snd (update_student sample_lib
            (start [alice] None [''101'', ''Bob'', ''  '', ''15'']))) =
     [UpdateBanner, CurrentValues, OkUpdated]"
proof -
  let ?w = "start [alice] None [''101'', ''Bob'', ''  '', ''15'']"
  have rec: "list_all string_record [student ''101'' ''Bob'' ''A'' ''15'']"
    by (simp add: string_record_student utf8_valid_ascii_Cons)
  note ok = sample_dump_records [OF rec]
  have st: "students (snd (update_student sample_lib ?w)) = [student ''101'' ''Bob'' ''A'' ''15'']"
    using update_student_effect [of ?w "''101''" "''Bob''" "''  ''" "''15''" "[]" sample_lib 0 _
        "PStr ''Alice''" "PStr ''A''"]
    by (simp add: sample_defs)
  from update_blank_grade_not_aborted [of ?w "''101''" "''Bob''" "''  ''" "''15''" "[]"
      sample_lib 0 alice] ok st
  show ?thesis
    by (simp add: sample_defs is_student_def field_def)
qed

text \<open>
  C3 as stated fails: with a new name and a blank grade, which \<open>validate_grade\<close>
  rejects, the update is carried out. The record no longer is as it was (its name is
  \<open>Bob\<close>) and the changed collection is written to \<open>data.json\<close>.
\<close>

theorem update_blank_grade_counterexample:
  "\<not> validate_grade (str_strip sample_lib ''  '') \<and>
   students (snd (update_student sample_lib
                    (start [alice] None [''101'', ''Bob'', ''  '', ''15'']))) =
     [student ''101'' ''Bob'' ''A'' ''15''] \<and>
   student ''101'' ''Bob'' ''A'' ''15'' \<noteq> alice \<and>
   data_file (snd (update_student sample_lib
                     (start [alice] None [''101'', ''Bob'', ''  '', ''15'']))) =
     Some (json_text 0 (PList [student ''101'' ''Bob'' ''A'' ''15'']))"
proof -
  let ?w = "start [alice] None [''101'', ''Bob'', ''  '', ''15'']"
  have rec: "list_all string_record [student ''101'' ''Bob'' ''A'' ''15'']"
    by (simp add: string_record_student utf8_valid_ascii_Cons)
  have eff: "update_student sample_lib ?w =
      bind (save_data sample_lib) (\<lambda>_. print OkUpdated)
        (?w\<lparr>stdout := [UpdateBanner, CurrentValues], stdin := [],
             students := [student ''101'' ''Bob'' ''A'' ''15'']\<rparr>)"
    using update_student_effect [of ?w "''101''" "''Bob''" "''  ''" "''15''" "[]" sample_lib 0 _
        "PStr ''Alice''" "PStr ''A''"]
    by (simp add: sample_defs)
  have "\<not> validate_grade (str_strip sample_lib ''  '')"
    by (simp add: sample_defs validate_grade_def)
  moreover have "student ''101'' ''Bob'' ''A'' ''15'' \<noteq> alice"
    by (simp add: alice_def student_def)
  moreover have "can_write ?w"
    by (simp add: start_def)
  ultimately show ?thesis
    unfolding eff by (simp add: save_print_file sample_dump_records(1) [OF rec])
qed

text \<open>
  C9. The grade stored is the upper-cased form of the (trimmed) grade typed: in the
  record \<open>add_student\<close> appends, and in the record \<open>update_student\<close> changes when the
  grade typed is not blank.
\<close>

theorem grade_stored_upper:
  "(stdin w = roll # name # grade # age # rest \<and> str_strip L roll \<noteq> [] \<and>
    str_strip L name \<noteq> [] \<and> str_strip L grade \<noteq> [] \<and>
    search_loop (students w) (str_strip L roll) = Return None \<longrightarrow>
      field (last (students (snd (add_student L w)))) ''grade'' =
        Some (PStr (str_upper L (str_strip L grade)))) \<and>
   (stdin u = l # n # g # a # rest' \<and> str_strip L l \<noteq> [] \<and>
    search_loop (students u) (str_strip L l) = Return (Some (i, s)) \<and> is_student s \<and>
    str_strip L g \<noteq> [] \<longrightarrow>
      field (students (snd (update_student L u)) ! i) ''grade'' =
        Some (PStr (str_upper L (str_strip L g))))"
proof (intro conjI impI)
  assume "stdin w = roll # name # grade # age # rest \<and> str_strip L roll \<noteq> [] \<and>
    str_strip L name \<noteq> [] \<and> str_strip L grade \<noteq> [] \<and>
    search_loop (students w) (str_strip L roll) = Return None"
  then show "field (last (students (snd (add_student L w)))) ''grade'' =
      Some (PStr (str_upper L (str_strip L grade)))"
    by (simp add: add_student_effect field_def student_def)
next
  assume a: "stdin u = l # n # g # a # rest' \<and> str_strip L l \<noteq> [] \<and>
    search_loop (students u) (str_strip L l) = Return (Some (i, s)) \<and> is_student s \<and>
    str_strip L g \<noteq> []"
  then have inp: "stdin u = l # n # g # a # rest'" and l: "str_strip L l \<noteq> []"
    and f: "search_loop (students u) (str_strip L l) = Return (Some (i, s))"
    and st: "is_student s" and g: "str_strip L g \<noteq> []"
    by simp_all
  from st obtain d vn vg where d: "s = PDict d" "map_of d ''name'' = Some vn"
      "map_of d ''grade'' = Some vg"
    by (auto elim!: is_student_dict)
  from search_loop_Some [OF f] have i: "i < length (students u)" by simp
  from f d have "search_loop (students u) (str_strip L l) = Return (Some (i, PDict d))"
    by simp
  from update_student_effect [OF inp l this d(2,3)] i g
  show "field (students (snd (update_student L u)) ! i) ''grade'' =
      Some (PStr (str_upper L (str_strip L g)))"
    by (simp add: field_def update_conv')
qed

theorem grade_stored_upper_witness:
  "field (last (students (snd (add_student sample_lib
            (start [] None [''101'', ''Alice'', ''a'', ''15''])))) ) ''grade'' =
     Some (PStr ''A'') \<and>
   field (students (snd (update_student sample_lib
            (start [alice] None [''101'', [], ''b'', ''15'']))) ! 0) ''grade'' =
     Some (PStr ''B'')"
  using grade_stored_upper [of "start [] None [''101'', ''Alice'', ''a'', ''15'']"
      "''101''" "''Alice''" "''a''" "''15''" "[]" sample_lib
      "start [alice] None [''101'', [], ''b'', ''15'']" "''101''" "[]" "''b''" "''15''" "[]"
      0 alice]
  by (simp add: sample_defs is_student_def)

section \<open>The scanner consumes what it reads\<close>

lemma prepend_ReturnD:
  "prepend a x = Return (s, r) \<Longrightarrow> \<exists>s'. x = Return (s', r)"
  by (auto simp: prepend_def split: result.splits)

lemma scanstring_shorter:
  "scanstring s = Return (str, r) \<Longrightarrow> length r < length s"
  "scan_escape s = Return (str, r) \<Longrightarrow> length r < length s"
proof (induction s and s arbitrary: str r and str r rule: scanstring_scan_escape.induct)
  case 1
  then show ?case by simp
next
  case (2 c cs)
  then show ?case
    by (fastforce split: if_splits dest!: prepend_ReturnD)
next
  case 3
  then show ?case by simp
next
  case (4 esc cs)
  then show ?case
    by (fastforce split: if_splits option.splits dest!: prepend_ReturnD)
qed

lemma skip_ws_le: "length (skip_ws s) \<le> length s"
  by (simp add: skip_ws_def length_dropWhile_le)

lemma match_exponent_le: "match_exponent s = (e, r) \<Longrightarrow> length r \<le> length s"
  by (auto simp: match_exponent_def Let_def split: list.splits if_splits prod.splits
      intro: le_trans [OF length_dropWhile_le])

lemma match_fraction_le: "match_fraction s = (f, r) \<Longrightarrow> length r \<le> length s"
  by (auto simp: match_fraction_def split: list.splits if_splits
      intro: le_trans [OF length_dropWhile_le])

lemma match_number_shorter: "match_number s = Some (v, r) \<Longrightarrow> length r < length s"
proof -
  assume a: "match_number s = Some (v, r)"
  obtain sign s1 where s1: "(case s of [] \<Rightarrow> (1::int, s)
      | c # r \<Rightarrow> if c = CHR ''-'' then (- 1, r) else (1, s)) = (sign, s1)"
    by (cases "case s of [] \<Rightarrow> (1::int, s) | c # r \<Rightarrow> if c = CHR ''-'' then (- 1, r) else (1, s)")
  then have l1: "length s1 \<le> length s"
    by (auto split: list.splits if_splits)
  from a s1 obtain c r0 where c: "s1 = c # r0" "is_digit c"
    by (cases s1) (auto simp: match_number_def split: if_splits)
  define s2 where "s2 = (if c = CHR ''0'' then r0 else dropWhile is_digit r0)"
  have l2: "length s2 \<le> length r0"
    by (simp add: s2_def length_dropWhile_le)
  obtain frac s3 where f: "match_fraction s2 = (frac, s3)" by (cases "match_fraction s2")
  obtain ex s4 where e: "match_exponent s3 = (ex, s4)" by (cases "match_exponent s3")
  from a s1 c f e have "r = s4"
    by (auto simp: match_number_def Let_def s2_def split: if_splits)
  with match_fraction_le [OF f] match_exponent_le [OF e] l1 l2 c show ?thesis
    by simp
qed

lemma array_loop_shorter:
  "consumes scan \<Longrightarrow> array_loop scan s = Return (vs, r) \<Longrightarrow> length r < length s"
proof (induction scan s arbitrary: vs r rule: array_loop.induct)
  case (1 scan s)
  from "1.prems"(2) obtain v r1 where v: "scan s = Return (v, r1)"
    by (subst (asm) array_loop.simps) (auto split: result.splits)
  with "1.prems"(1) have l1: "length r1 < length s" by (auto simp: consumes_def)
  from "1.prems"(2) v obtain c r' where c: "skip_ws r1 = c # r'"
    by (subst (asm) array_loop.simps) (auto split: list.splits)
  have l2: "length r' < length s"
    using skip_ws_le [of r1] c l1 by simp
  show ?case
  proof (cases "c = CHR '']''")
    case True
    with "1.prems"(2) v c have "r = r'"
      by (subst (asm) array_loop.simps) simp
    with l2 show ?thesis by simp
  next
    case False
    with "1.prems"(2) v c l2 obtain vs' where
      rec: "array_loop scan (skip_ws r') = Return (vs', r)" and comma: "c = CHR '',''"
      by (subst (asm) array_loop.simps) (auto split: if_splits result.splits)
    from "1.IH" [OF v refl c False _ "1.prems"(1) rec] comma l2
    have "length r < length (skip_ws r')" by simp
    with skip_ws_le [of r'] l2 show ?thesis by simp
  qed
qed

lemma object_loop_shorter:
  "consumes scan \<Longrightarrow> object_loop scan s = Return (ps, r) \<Longrightarrow> length r < length s"
proof (induction scan s arbitrary: ps r rule: object_loop.induct)
  case (1 scan s)
  note run = "1.prems"(2) [unfolded object_loop.simps [of scan s]]
  from run obtain key r0 where key: "scanstring s = Return (key, r0)"
    by (auto split: result.splits)
  from scanstring_shorter(1) [OF key] have l0: "length r0 < length s" .
  from run key obtain c r1 where c: "skip_ws r0 = c # r1" and colon: "c = CHR '':''"
    by (auto split: list.splits if_splits)
  from run key c colon obtain v r2 where v: "scan (skip_ws r1) = Return (v, r2)"
    by (auto split: result.splits)
  with "1.prems"(1) have "length r2 < length (skip_ws r1)" by (auto simp: consumes_def)
  with skip_ws_le [of r1] skip_ws_le [of r0] c l0 have l2: "length r2 < length s" by simp
  from run key c colon v obtain d r3 where d: "skip_ws r2 = d # r3"
    by (auto split: list.splits)
  with skip_ws_le [of r2] l2 have l3: "length r3 < length s" by simp
  show ?case
  proof (cases "d = CHR ''}''")
    case True
    with run key c colon v d have "r = r3" by simp
    with l3 show ?thesis by simp
  next
    case False
    with run key c colon v d obtain q r4 where q: "skip_ws r3 = q # r4" and comma: "d = CHR '',''"
      by (auto split: list.splits if_splits)
    with skip_ws_le [of r3] l3 have l4: "length r4 < length s" by simp
    from run key c colon v d False comma q l4 obtain ps' where
      rec: "object_loop scan r4 = Return (ps', r)" and quote: "q = CHR 0x22"
      by (auto split: if_splits result.splits)
    have "\<not> c \<noteq> CHR '':''" using colon by simp
    from "1.IH" [OF key refl c this v refl d False _ q _ "1.prems"(1) rec] comma quote l4
    have "length r < length r4" by simp
    with l4 show ?thesis by simp
  qed
qed

lemma consumes_scan_once: "consumes scan \<Longrightarrow> consumes (scan_once scan)"
  unfolding consumes_def
proof (intro allI impI)
  fix s v r
  assume scan: "\<forall>s v r. scan s = Return (v, r) \<longrightarrow> length r < length s"
    and run: "scan_once scan s = Return (v, r)"
  then have c: "consumes scan" by (simp add: consumes_def)
  from run obtain c0 cs where s: "s = c0 # cs"
    by (cases s) (auto simp: scan_once_def)
  consider (str) "c0 = CHR 0x22" | (obj) "c0 = CHR ''{''" | (arr) "c0 = CHR ''[''"
    | (other) "c0 \<noteq> CHR 0x22" "c0 \<noteq> CHR ''{''" "c0 \<noteq> CHR ''[''"
    by blast
  then show "length r < length s"
  proof cases
    case str
    with run s obtain str' where "scanstring cs = Return (str', r)"
      by (auto simp: scan_once_def split: result.splits)
    from scanstring_shorter(1) [OF this] s show ?thesis by simp
  next
    case obj
    with run s have o: "JSONObject scan cs = Return (v, r)"
      by (simp add: scan_once_def)
    then obtain c1 r1 where c1: "skip_ws cs = c1 # r1"
      by (auto simp: JSONObject_def split: list.splits)
    with skip_ws_le [of cs] have l1: "length r1 < length s" using s by simp
    show ?thesis
    proof (cases "c1 = CHR ''}''")
      case True
      with o c1 l1 show ?thesis by (simp add: JSONObject_def)
    next
      case False
      with o c1 obtain ps where "object_loop scan r1 = Return (ps, r)"
        by (auto simp: JSONObject_def split: if_splits result.splits)
      from object_loop_shorter [OF c this] l1 show ?thesis by simp
    qed
  next
    case arr
    with run s have a: "JSONArray scan cs = Return (v, r)"
      by (simp add: scan_once_def)
    then obtain c1 r1 where c1: "skip_ws cs = c1 # r1"
      by (auto simp: JSONArray_def split: list.splits)
    with skip_ws_le [of cs] have l1: "length (c1 # r1) < length s" using s by simp
    show ?thesis
    proof (cases "c1 = CHR '']''")
      case True
      with a c1 l1 show ?thesis by (simp add: JSONArray_def)
    next
      case False
      with a c1 obtain vs where "array_loop scan (c1 # r1) = Return (vs, r)"
        by (auto simp: JSONArray_def split: if_splits result.splits)
      from array_loop_shorter [OF c this] l1 show ?thesis by simp
    qed
  next
    case other
    with run [unfolded scan_once_def] s show ?thesis
      by (auto split: if_splits option.splits dest: match_number_shorter)
  qed
qed

lemma consumes_scan_depth: "consumes (scan_depth n)"
proof (induction n)
  case 0
  show ?case by (simp add: consumes_def)
next
  case (Suc n)
  have "scan_depth (Suc n) = scan_once (scan_depth n)" by (rule ext) simp
  with consumes_scan_once [OF Suc] show ?case by simp
qed

text \<open>So the loops are the loops of \<open>json.decoder\<close>: the tests on the lengths never fail.\<close>

lemma array_loop_unguarded:
  assumes "consumes scan"
  shows "array_loop scan s =
     (case scan s of
        Raise e \<Rightarrow> Raise e
      | Return (v, r) \<Rightarrow>
          (case skip_ws r of
             [] \<Rightarrow> Raise JSONDecodeError
           | c # r' \<Rightarrow>
               if c = CHR '']'' then Return ([v], r')
               else if c = CHR '',''
               then (case array_loop scan (skip_ws r') of
                       Raise e \<Rightarrow> Raise e
                     | Return (vs, r'') \<Rightarrow> Return (v # vs, r''))
               else Raise JSONDecodeError))"
proof -
  have "length r' < length s" if "scan s = Return (v, r)" and "skip_ws r = c # r'" for v r c r'
  proof -
    from assms that(1) have "length r < length s" by (auto simp: consumes_def)
    with skip_ws_le [of r] that(2) show ?thesis by simp
  qed
  then show ?thesis
    by (subst array_loop.simps) (auto split: result.splits list.splits)
qed

lemma object_loop_unguarded:
  assumes "consumes scan"
  shows "object_loop scan s =
     (case scanstring s of
        Raise e \<Rightarrow> Raise e
      | Return (key, r) \<Rightarrow>
          (case skip_ws r of
             [] \<Rightarrow> Raise JSONDecodeError
           | c # r1 \<Rightarrow>
               if c \<noteq> CHR '':'' then Raise JSONDecodeError
               else
                 (case scan (skip_ws r1) of
                    Raise e \<Rightarrow> Raise e
                  | Return (v, r2) \<Rightarrow>
                      (case skip_ws r2 of
                         [] \<Rightarrow> Raise JSONDecodeError
                       | d # r3 \<Rightarrow>
                           if d = CHR ''}'' then Return ([(key, v)], r3)
                           else if d \<noteq> CHR '','' then Raise JSONDecodeError
                           else
                             (case skip_ws r3 of
                                [] \<Rightarrow> Raise JSONDecodeError
                              | q # r4 \<Rightarrow>
                                  if q = CHR 0x22
                                  then (case object_loop scan r4 of
                                          Raise e \<Rightarrow> Raise e
                                        | Return (ps, r5) \<Rightarrow> Return ((key, v) # ps, r5))
                                  else Raise JSONDecodeError)))))"
proof -
  have "length r4 < length s"
    if "scanstring s = Return (key, r)" and "skip_ws r = c # r1"
      and "scan (skip_ws r1) = Return (v, r2)" and "skip_ws r2 = d # r3"
      and "skip_ws r3 = q # r4" for key r c r1 v r2 d r3 q r4
  proof -
    from scanstring_shorter(1) [OF that(1)] have "length r < length s" .
    moreover from assms that(3) have "length r2 < length (skip_ws r1)"
      by (auto simp: consumes_def)
    ultimately show ?thesis
      using skip_ws_le [of r] skip_ws_le [of r1] skip_ws_le [of r2] skip_ws_le [of r3] that(2,4,5)
      by simp
  qed
  then show ?thesis
    by (subst object_loop.simps) (auto split: result.splits list.splits)
qed

section \<open>Reading back what was written\<close>

lemma skip_ws_Cons [simp]: "\<not> json_ws c \<Longrightarrow> skip_ws (c # r) = c # r"
  by (simp add: skip_ws_def)

lemma skip_ws_newline_indent [simp]:
  "skip_ws (newline_indent n @ r) = skip_ws r"
  by (simp add: skip_ws_def newline_indent_def json_ws_def dropWhile_append)

lemma skip_ws_space [simp]: "skip_ws (CHR 0x20 # r) = skip_ws r"
  by (simp add: skip_ws_def json_ws_def)

lemma json_ws_simps [simp]:
  "\<not> json_ws (CHR 0x22)" "\<not> json_ws (CHR '':'')" "\<not> json_ws (CHR '','')"
  "\<not> json_ws (CHR ''}'')" "\<not> json_ws (CHR '']'')" "\<not> json_ws (CHR ''{'')"
  "\<not> json_ws (CHR ''['')"
  by (simp_all add: json_ws_def)

lemma hex_digit_all: "\<forall>k<16. hex_val (''0123456789abcdef'' ! k) = Some k"
  by (simp add: eval_nat_numeral All_less_Suc hex_val_def)

lemma hex_digit: "k < 16 \<Longrightarrow> hex_val (''0123456789abcdef'' ! k) = Some k"
  using hex_digit_all by blast

lemma prepend_Return [simp]: "prepend a (Return (s, r)) = Return (a @ s, r)"
  by (simp add: prepend_def)

text \<open>Every character, escaped by \<open>json.dump\<close>, is read back as itself.\<close>

lemma scan_escaped_char: "scanstring (escape_char c @ t) = prepend [c] (scanstring t)"
proof (cases "(of_char c :: nat) < 32")
  case False
  then show ?thesis
    by (auto simp: escape_char_def backslash_def)
next
  case True
  let ?n = "of_char c :: nat"
  have d: "decode_uXXXX (CHR ''0'' # CHR ''0'' # ''0123456789abcdef'' ! (?n div 16) #
             ''0123456789abcdef'' ! (?n mod 16) # t) = Some ?n"
    using True by (simp add: hex_digit) (simp add: hex_val_def)
  have u: "utf8 ?n = [c]"
    using True by (simp add: utf8_def)
  from True d u show ?thesis
    by (auto simp: escape_char_def backslash_def)
qed

lemma scanstring_escaped:
  "scanstring (concat (map escape_char s) @ CHR 0x22 # r) = Return (s, r)"
  by (induction s) (simp_all add: scan_escaped_char)

lemma scans_strings_scan_once: "scans_strings (scan_once f)"
  by (simp add: scans_strings_def scan_once_def scanstring_escaped)

text \<open>The members of a dict of strings, read back by the loop of \<open>JSONObject\<close>.\<close>

lemma object_loop_members:
  assumes "d \<noteq> []" and "list_all (\<lambda>(k, v). is_PStr v) d" and f: "scans_strings f"
  shows "object_loop f (tl (json_members lvl d) @ newline_indent l0 @ CHR ''}'' # t) =
         Return (d, t)"
  using assms(1,2)
proof (induction d rule: list_nonempty_induct)
  case (single p)
  then obtain k v where p: "p = (k, PStr v)"
    by (cases p; cases "snd p") auto
  show ?case
    unfolding p using f
    by (subst object_loop.simps) (simp add: quoted_def scanstring_escaped scans_strings_def)
next
  case (cons p d)
  then obtain k v where p: "p = (k, PStr v)"
    by (cases p; cases "snd p") auto
  from cons.hyps obtain k' v' d' where d: "d = (k', v') # d'"
    by (cases d) auto
  from cons have IH: "object_loop f
      (tl (json_members lvl d) @ newline_indent l0 @ CHR ''}'' # t) = Return (d, t)"
    by simp
  have q: "json_members lvl d = CHR 0x22 # tl (json_members lvl d)"
    unfolding d by (simp add: quoted_def)
  show ?case
    unfolding p using f
    apply (subst object_loop.simps)
    apply (simp add: quoted_def scanstring_escaped scans_strings_def cons.hyps)
    apply (subst q)
    apply (simp add: IH)
    apply arith
    done
qed

lemma update_fresh: "k \<notin> fst ` set al \<Longrightarrow> AList.update k v al = al @ [(k, v)]"
  by (induction al) auto

lemma foldl_update_distinct:
  "distinct (map fst (acc @ ps)) \<Longrightarrow>
   foldl (\<lambda>d (k, v). AList.update k v d) acc ps = acc @ ps"
proof (induction ps arbitrary: acc)
  case Nil
  then show ?case by simp
next
  case (Cons p ps)
  obtain k v where p: "p = (k, v)" by (cases p)
  from Cons.prems p have "k \<notin> fst ` set acc" by auto
  then have "AList.update k v acc = acc @ [(k, v)]" by (rule update_fresh)
  moreover from Cons.prems p have "distinct (map fst ((acc @ [(k, v)]) @ ps))" by simp
  ultimately show ?case
    using Cons.IH [of "acc @ [(k, v)]"] p by simp
qed

lemma dict_of_pairs_distinct: "distinct (map fst ps) \<Longrightarrow> dict_of_pairs ps = ps"
  using foldl_update_distinct [of "[]" ps] by (simp add: dict_of_pairs_def)

text \<open>A dict of strings, read back by \<open>scan_once\<close>.\<close>

lemma scan_once_record:
  assumes "string_record s" and "scans_strings f"
  shows "scan_once f (json_text lvl s @ t) = Return (s, t)"
proof -
  from assms(1) obtain d where d: "s = PDict d" "distinct (map fst d)"
      "list_all (\<lambda>(k, v). utf8_valid k \<and> is_text v) d"
    by (cases s) (auto simp: string_record_def)
  have "is_PStr v" if "is_text v" for v
    using that by (cases v) auto
  with d(3) have strs: "list_all (\<lambda>(k, v). is_PStr v) d"
    by (auto simp: list_all_iff)
  show ?thesis
  proof (cases "d = []")
    case True
    with d show ?thesis by (simp add: scan_once_def JSONObject_def)
  next
    case False
    then obtain k v d' where "d = (k, v) # d'" by (cases d) auto
    then have q: "json_members (Suc lvl) d = CHR 0x22 # tl (json_members (Suc lvl) d)"
      by (simp add: quoted_def)
    have "JSONObject f (newline_indent (Suc lvl) @ json_members (Suc lvl) d @
            newline_indent lvl @ CHR ''}'' # t) = Return (PDict d, t)"
      unfolding JSONObject_def
      apply (subst q)
      apply (simp add: object_loop_members [OF False strs assms(2)] dict_of_pairs_distinct d(2))
      done
    with False d show ?thesis by (simp add: scan_once_def)
  qed
qed

lemma json_text_record_nonempty:
  "string_record s \<Longrightarrow> \<exists>r. json_text lvl s = CHR ''{'' # r"
  by (cases s) (auto simp: string_record_def)

text \<open>The elements of a list of such dicts, read back by the loop of \<open>JSONArray\<close>.\<close>

lemma array_loop_items:
  assumes "xs \<noteq> []" and "list_all string_record xs" and f: "scans_strings f"
  shows "array_loop (scan_once f) (json_items lvl xs @ newline_indent l0 @ CHR '']'' # t) =
         Return (xs, t)"
  using assms(1,2)
proof (induction xs rule: list_nonempty_induct)
  case (single x)
  then have "string_record x" by simp
  from scan_once_record [OF this f] show ?case
    by (subst array_loop.simps) simp
next
  case (cons x xs)
  then have x: "string_record x" and IH: "array_loop (scan_once f)
      (json_items lvl xs @ newline_indent l0 @ CHR '']'' # t) = Return (xs, t)"
    by simp_all
  from cons.hyps obtain y ys where xs: "xs = y # ys" by (cases xs) auto
  with cons.prems have "string_record y" by simp
  from json_text_record_nonempty [OF this, of lvl] obtain r where
    r: "json_text lvl y = CHR ''{'' # r" by blast
  have sk: "skip_ws (json_items lvl xs @ u) = json_items lvl xs @ u" for u
    unfolding xs by (simp add: r)
  show ?case
    by (subst array_loop.simps) (simp add: scan_once_record [OF x f] cons.hyps sk IH)
qed

lemma scan_depth_numeral:
  "scan_depth (numeral k) s = scan_once (scan_depth (pred_numeral k)) s"
  by (simp add: numeral_eq_Suc)

text \<open>\<open>json.load\<close> reads back what \<open>json.dump\<close> wrote for a list of records of strings:
  the same records, in the same order, with the same keys in the same order.\<close>

lemma json_loads_records:
  assumes "list_all string_record xs"
  shows "json_loads (json_text 0 (PList xs)) = Return (PList xs)"
proof (cases "xs = []")
  case True
  then show ?thesis
    by (simp add: json_loads_def recursion_limit_def scan_depth_numeral scan_once_def
        JSONArray_def skip_ws_def json_ws_def)
next
  case False
  then obtain y ys where xs: "xs = y # ys" by (cases xs) auto
  with assms have "string_record y" by simp
  from json_text_record_nonempty [OF this, of 1] obtain r where
    r: "json_text (Suc 0) y = CHR ''{'' # r" by auto
  have sk: "skip_ws (json_items (Suc 0) xs @ u) = json_items (Suc 0) xs @ u" for u
    unfolding xs by (simp add: r)
  obtain c cs where c: "json_items (Suc 0) xs = c # cs"
    unfolding xs by (simp add: r)
  have "JSONArray (scan_once (scan_once (scan_depth 997)))
          (newline_indent (Suc 0) @ json_items (Suc 0) xs @ newline_indent 0 @ '']'') =
        Return (PList xs, [])"
    unfolding JSONArray_def
    using sk [of "newline_indent 0 @ '']''"] c
      array_loop_items [OF False assms scans_strings_scan_once, of "scan_depth 997" "Suc 0" 0 "[]"]
    by (auto simp: xs r)
  moreover have "scan_depth 999 = scan_once (scan_depth 998)"
    and "scan_depth 998 = scan_once (scan_depth 997)"
    by (rule ext, simp add: scan_depth_numeral)+
  ultimately show ?thesis
    using False
    by (simp add: json_loads_def recursion_limit_def scan_depth_numeral scan_once_def
        skip_ws_def)
qed

lemma json_load_records:
  assumes "list_all string_record xs"
  shows "json_load sample_lib (json_text 0 (PList xs)) = Return (PList xs)"
  using json_loads_records [OF assms] json_text_records_valid [OF assms]
  by (simp only: sample_lib_def pylib.simps json_load_utf8_def if_True)

lemmas json_eval = json_load_utf8_def utf8_valid_ascii_Cons
  json_loads_def recursion_limit_def scan_depth_numeral scan_once_def
  JSONArray_def JSONObject_def skip_ws_def json_ws_def match_number_def match_fraction_def
  match_exponent_def is_digit_def digits_val_def dict_of_pairs_def array_loop.simps
  object_loop.simps backslash_def

section \<open>Loading and saving\<close>

text \<open>
  C6 (as amended). \<open>load_data\<close> returns the empty list, silently, when \<open>data.json\<close> does
  not exist; the empty list and a warning when opening or reading the file raises
  \<open>OSError\<close> or parsing it raises \<open>JSONDecodeError\<close>; the empty list and a warning
  when the file parses to a value that is not a list; and the parsed list itself, whatever
  its elements, when it parses to a list. It never changes the file. What it does when
  reading raises any other exception is not part of this statement.
\<close>

theorem load_data_cases:
  "(data_file w = None \<longrightarrow> load_data L w = (Return [], w)) \<and>
   (data_file w = Some t \<and>
      (\<not> can_read w \<or> json_load L t = Raise JSONDecodeError \<or> json_load L t = Raise OSError) \<longrightarrow>
      load_data L w = (Return [], w\<lparr>stdout := stdout w @ [WarnCouldNotRead]\<rparr>)) \<and>
   (data_file w = Some t \<and> can_read w \<and> json_load L t = Return v \<and> (\<forall>xs. v \<noteq> PList xs) \<longrightarrow>
      load_data L w = (Return [], w\<lparr>stdout := stdout w @ [WarnUnexpectedContent]\<rparr>)) \<and>
   (data_file w = Some t \<and> can_read w \<and> json_load L t = Return (PList xs) \<longrightarrow>
      load_data L w = (Return xs, w)) \<and>
   data_file (snd (load_data L w)) = data_file w"
  by (cases v) (auto simp: load_data_def split: option.splits result.splits pyval.splits)

theorem load_data_cases_witness:
  "load_data sample_lib (start [] None []) = (Return [], start [] None []) \<and>
   load_data sample_lib (start [] (Some []) []) =
     (Return [], (start [] (Some []) [])\<lparr>stdout := [WarnCouldNotRead]\<rparr>) \<and>
   load_data sample_lib ((start [] (Some ''[]'') [])\<lparr>can_read := False\<rparr>) =
     (Return [], (start [] (Some ''[]'') [])\<lparr>can_read := False, stdout := [WarnCouldNotRead]\<rparr>) \<and>
   load_data sample_lib (start [] (Some ''\"not an array\"'') []) =
     (Return [], (start [] (Some ''\"not an array\"'') [])\<lparr>stdout := [WarnUnexpectedContent]\<rparr>) \<and>
   load_data sample_lib (start [] (Some (json_text 0 (PList [alice, bob]))) []) =
     (Return [alice, bob], start [] (Some (json_text 0 (PList [alice, bob]))) [])"
proof -
  have empty: "json_load sample_lib [] = Raise JSONDecodeError"
    by (simp add: sample_lib_def json_eval)
  have str: "json_load sample_lib ''\"not an array\"'' = Return (PStr ''not an array'')"
    by (simp add: sample_lib_def json_eval)
  have recs: "json_load sample_lib (json_text 0 (PList [alice, bob])) = Return (PList [alice, bob])"
    by (rule json_load_records) simp
  from
    load_data_cases [where w = "start [] None []" and L = sample_lib]
    load_data_cases [where w = "start [] (Some []) []" and t = "[]" and L = sample_lib]
    load_data_cases [where w = "(start [] (Some ''[]'') [])\<lparr>can_read := False\<rparr>"
      and t = "''[]''" and L = sample_lib]
    load_data_cases [where w = "start [] (Some ''\"not an array\"'') []"
      and t = "''\"not an array\"''" and L = sample_lib and v = "PStr ''not an array''"]
    load_data_cases [where w = "start [] (Some (json_text 0 (PList [alice, bob]))) []"
      and t = "json_text 0 (PList [alice, bob])" and L = sample_lib and xs = "[alice, bob]"]
    empty str recs
  show ?thesis
    by (simp add: start_def)
qed

text \<open>
  C6 as stated fails in its last part, and in its second. A file holding the JSON array
  \<open>[1]\<close> is valid JSON and is not an array of objects, yet \<open>load_data\<close> returns the list
  \<open>[1]\<close>, not the empty collection, and prints no warning: line 41 checks only that the
  value is a list. A file holding the byte \<open>0xFF\<close> cannot be parsed, yet \<open>load_data\<close>
  returns nothing: decoding it raises \<open>UnicodeDecodeError\<close>, which is neither of the two
  exceptions that line 45 catches.
\<close>

theorem load_data_counterexample:
  "json_load sample_lib ''[1]'' = Return (PList [PInt 1]) \<and>
   load_data sample_lib (start [] (Some ''[1]'') []) =
     (Return [PInt 1], start [] (Some ''[1]'') []) \<and>
   [PInt 1] \<noteq> [] \<and>
   load_data sample_lib (start [] (Some [CHR 0xFF]) []) =
     (Raise UnicodeDecodeError, start [] (Some [CHR 0xFF]) [])"
  by (simp add: load_data_def start_def sample_lib_def json_eval utf8_valid.simps trail_def)



text \<open>
  What the round trip leaves out. A record whose name is a lone surrogate (the \<open>str\<close>
  that \<open>json.load\<close> returns for the escape \<open>\ud800\<close>) cannot be encoded:
  \<open>json.dump\<close> raises \<open>UnicodeEncodeError\<close>, which \<open>save_data\<close> does not catch, and
  \<open>data.json\<close> is left with the text written so far, which \<open>load_data\<close> then cannot
  parse.
\<close>

lemma utf8_lone_surrogate: "utf8 0xD800 = [CHR 0xED, CHR 0xA0, CHR 0x80]"
  by (simp add: utf8_def char_of_def bit_iff_odd)

lemma save_data_lone_surrogate:
  "save_data sample_lib (start [student ''101'' [CHR 0xED, CHR 0xA0, CHR 0x80] ''A'' ''15''] None []) =
     (Raise UnicodeEncodeError,
      start [student ''101'' [CHR 0xED, CHR 0xA0, CHR 0x80] ''A'' ''15'']
        (Some (''['' @ newline_indent 1 @ ''{'' @ newline_indent 2 @
               ''\"roll_no\": \"101\",'' @ newline_indent 2 @ ''\"name\": '')) [])"
proof -
  have "newline_indent 2 = newline_indent (Suc (Suc 0))"
    by (simp add: numeral_2_eq_2)
  then show ?thesis
    by (simp add: save_data_def start_def sample_lib_def json_dump_utf8_def student_def
        quoted_def escape_char_def utf8_valid_ascii_Cons utf8_valid_newline_indent
        utf8_valid.simps trail_def second_byte_def cont_byte_def)
qed

section \<open>When the scan raises\<close>

lemma ex_fresh_roll: "\<exists>r. \<forall>v\<in>set vs. v \<noteq> PStr r"
proof -
  have "inj PStr" by (simp add: inj_def)
  then have "finite (PStr -` set vs)"
    by (intro finite_vimageI) simp_all
  moreover have "infinite (UNIV :: string set)" by (rule infinite_UNIV_listI)
  ultimately obtain r where "r \<notin> PStr -` set vs"
    using ex_new_if_finite by blast
  then show ?thesis by auto
qed

lemma search_loop_raises:
  assumes "\<exists>s\<in>set xs. roll_of s = None"
  shows "\<exists>roll e. search_loop xs roll = Raise e"
proof -
  obtain r where r: "\<forall>v\<in>set (List.map_filter roll_of xs). v \<noteq> PStr r"
    using ex_fresh_roll by blast
  have none: "search_loop xs r \<noteq> Return None"
    using assms unfolding search_loop_None_iff by fastforce
  have some: "search_loop xs r \<noteq> Return (Some (i, s))" for i s
  proof
    assume "search_loop xs r = Return (Some (i, s))"
    from search_loop_Some [OF this] have "s \<in> set xs" "roll_of s = Some (PStr r)"
      by auto
    with r show False by (auto simp: set_map_filter)
  qed
  have "\<exists>e. search_loop xs r = Raise e"
  proof (cases "search_loop xs r")
    case (Return res)
    with none some show ?thesis by (cases res) auto
  next
    case (Raise e)
    then show ?thesis by blast
  qed
  then show ?thesis by blast
qed

text \<open>
  C10. \<open>search_by_roll\<close> returns for every roll number exactly when every element of
  the collection is a dict with a \<open>roll_no\<close> key. \<open>main\<close> stores any list that
  \<open>load_data\<close> parsed, so a readable file can put other elements there; and when the
  scan raises for the roll number typed, \<open>search_student\<close>, \<open>update_student\<close> and
  \<open>delete_student\<close> raise the same exception.
\<close>

theorem search_total_iff:
  "((\<forall>roll. \<exists>r. search_loop xs roll = Return r) \<longleftrightarrow> (\<forall>s\<in>set xs. roll_of s \<noteq> None)) \<and>
   (data_file w = Some t \<and> can_read w \<and> json_load L t = Return (PList xs) \<longrightarrow>
      students (snd (main_load L w)) = xs) \<and>
   (stdin u = l # rest \<and> str_strip L l \<noteq> [] \<and>
      search_loop (students u) (str_strip L l) = Raise e \<longrightarrow>
      fst (search_by_roll (str_strip L l) u) = Raise e \<and>
      fst (search_student L u) = Raise e \<and> fst (update_student L u) = Raise e \<and>
      fst (delete_student L u) = Raise e)"
proof (intro conjI impI)
  show "(\<forall>roll. \<exists>r. search_loop xs roll = Return r) \<longleftrightarrow> (\<forall>s\<in>set xs. roll_of s \<noteq> None)"
  proof
    assume total: "\<forall>roll. \<exists>r. search_loop xs roll = Return r"
    show "\<forall>s\<in>set xs. roll_of s \<noteq> None"
    proof (rule ccontr)
      assume "\<not> (\<forall>s\<in>set xs. roll_of s \<noteq> None)"
      then have "\<exists>s\<in>set xs. roll_of s = None" by simp
      from search_loop_raises [OF this] total show False by (metis result.distinct(1))
    qed
  next
    assume "\<forall>s\<in>set xs. roll_of s \<noteq> None"
    then show "\<forall>roll. \<exists>r. search_loop xs roll = Return r"
      using search_loop_total by blast
  qed
next
  assume "data_file w = Some t \<and> can_read w \<and> json_load L t = Return (PList xs)"
  then show "students (snd (main_load L w)) = xs"
    by (simp add: main_load_def load_data_def bind_def)
next
  assume a: "stdin u = l # rest \<and> str_strip L l \<noteq> [] \<and>
    search_loop (students u) (str_strip L l) = Raise e"
  then show "fst (search_by_roll (str_strip L l) u) = Raise e"
    by (simp add: search_by_roll_def)
  from a show "fst (search_student L u) = Raise e"
    by (simp add: search_student_def io_defs prompt_nonempty_line)
  from a show "fst (update_student L u) = Raise e"
    by (simp add: update_student_def io_defs prompt_nonempty_line)
  from a show "fst (delete_student L u) = Raise e"
    by (simp add: delete_student_def io_defs prompt_nonempty_line)
qed

theorem search_total_iff_witness:
  "(\<forall>roll. \<exists>r. search_loop [alice, bob] roll = Return r) \<and>
   students (snd (main_load sample_lib (start [] (Some ''[1]'') [''101'']))) = [PInt 1] \<and>
   fst (search_by_roll ''101'' (start [PInt 1] (Some ''[1]'') [''101''])) = Raise TypeError \<and>
   fst (search_student sample_lib (start [PInt 1] (Some ''[1]'') [''101''])) = Raise TypeError \<and>
   fst (update_student sample_lib (start [PInt 1] (Some ''[1]'') [''101''])) = Raise TypeError \<and>
   fst (delete_student sample_lib (start [PInt 1] (Some ''[1]'') [''101''])) = Raise TypeError \<and>
   students (snd (main_load sample_lib (start [] (Some ''[{}]'') [''101'']))) = [PDict []] \<and>
   fst (search_student sample_lib (start [PDict []] (Some ''[{}]'') [''101''])) = Raise KeyError"
proof -
  have one: "json_load sample_lib ''[1]'' = Return (PList [PInt 1])"
    by (simp add: sample_lib_def json_eval)
  have obj: "json_load sample_lib ''[{}]'' = Return (PList [PDict []])"
    by (simp add: sample_lib_def json_eval)
  have strip: "str_strip sample_lib ''101'' = ''101''"
    by (simp add: sample_lib_def ascii_strip_def py_space_def)
  from
    search_total_iff [of "[alice, bob]"]
    search_total_iff [of "[PInt 1]" "start [] (Some ''[1]'') [''101'']" "''[1]''" sample_lib
      "start [PInt 1] (Some ''[1]'') [''101'']" "''101''" "[]" TypeError]
    search_total_iff [of "[PDict []]" "start [] (Some ''[{}]'') [''101'']" "''[{}]''" sample_lib
      "start [PDict []] (Some ''[{}]'') [''101'']" "''101''" "[]" KeyError]
    one obj strip
  show ?thesis
    by (simp add: start_def alice_def bob_def student_def roll_of_def field_def)
qed

section \<open>The uniqueness invariant\<close>

lemma steps_bind:
  assumes "transp R" and "steps R m" and "\<And>x. steps R (f x)"
  shows "steps R (bind m f)"
  unfolding steps_def
proof
  fix w
  show "R (students w) (students (snd (bind m f w)))"
  proof (cases "m w")
    case (Pair r w')
    from assms(2) Pair have 1: "R (students w) (students w')"
      by (metis steps_def snd_conv)
    show ?thesis
    proof (cases r)
      case (Return x)
      from assms(3) [of x] have "R (students w') (students (snd (f x w')))"
        by (simp add: steps_def)
      with 1 assms(1) have "R (students w) (students (snd (f x w')))"
        by (metis transpD)
      with Pair Return show ?thesis by (simp add: bind_def)
    next
      case (Raise e)
      with Pair 1 show ?thesis by (simp add: bind_def)
    qed
  qed
qed

lemma steps_basic:
  assumes "reflp R"
  shows "steps R (print m)" and "steps R (ret x)" and "steps R (lift r)" and "steps R input_line"
    and "steps R (search_by_roll roll)" and "steps R (save_data L)"
    and "steps R (prompt_nonempty L)"
  using assms
  by (auto simp: steps_def io_defs reflp_def prompt_nonempty_students split: list.splits)

lemma steps_input_strip:
  "reflp R \<Longrightarrow> transp R \<Longrightarrow> steps R (input_strip L)"
  "reflp R \<Longrightarrow> transp R \<Longrightarrow> steps R (prompt_optional L)"
  by (auto simp: input_strip_def prompt_optional_def intro!: steps_bind steps_basic)

lemmas steps_intros = steps_bind steps_basic steps_input_strip

lemma steps_format_row: "reflp R \<Longrightarrow> transp R \<Longrightarrow> steps R (format_row s)"
  unfolding format_row_def by (intro steps_intros) auto

lemma steps_print_rows: "reflp R \<Longrightarrow> transp R \<Longrightarrow> steps R (print_rows xs)"
  by (induction xs) (auto intro!: steps_intros steps_format_row)

lemma steps_print_table: "reflp R \<Longrightarrow> transp R \<Longrightarrow> steps R (print_table xs)"
  unfolding print_table_def by (auto intro!: steps_intros steps_print_rows)

lemma view_students_keeps: "students (snd (view_students w)) = students w"
proof -
  have "steps (=) (\<lambda>w. print_table (students w) w)"
    using steps_print_table [of "(=)"] by (simp add: steps_def)
  then have "steps (=) view_students"
    unfolding view_students_def by (intro steps_intros) auto
  then show ?thesis by (simp add: steps_def)
qed

lemma search_student_keeps: "students (snd (search_student L w)) = students w"
proof -
  have "steps (=) (search_student L)"
    unfolding search_student_def
    by (intro steps_intros) (auto intro!: steps_intros steps_print_table split: option.splits)
  then show ?thesis by (simp add: steps_def)
qed

lemma same_rolls_refl: "reflp same_rolls" and same_rolls_trans: "transp same_rolls"
  by (auto simp: same_rolls_def reflp_def transp_def)

lemma steps_store_item:
  assumes "k \<noteq> ''roll_no''"
  shows "steps same_rolls (store_item i k v)"
  using assms
  by (auto simp: steps_def store_item_def same_rolls_def map_update roll_of_def field_def
      update_conv' list_eq_iff_nth_eq nth_list_update split: pyval.splits)

lemma update_student_rolls:
  "map roll_of (students (snd (update_student L w))) = map roll_of (students w)"
proof -
  note R = same_rolls_refl same_rolls_trans
  have "steps same_rolls (update_student L)"
    unfolding update_student_def Let_def
    by (intro steps_intros R)
       (auto intro!: steps_intros steps_store_item R split: option.splits)
  then show ?thesis by (simp add: steps_def same_rolls_def)
qed

lemma unique_rolls_map: "map roll_of ys = map roll_of xs \<Longrightarrow> unique_rolls ys = unique_rolls xs"
proof -
  have "List.map_filter roll_of zs = List.map_filter id (map roll_of zs)" for zs
    by (induction zs) (auto simp: List.map_filter_simps split: option.splits)
  then show "map roll_of ys = map roll_of xs \<Longrightarrow> ?thesis"
    by (simp add: unique_rolls_def)
qed

lemma keeps_unique_refl: "reflp keeps_unique" and keeps_unique_trans: "transp keeps_unique"
  by (auto simp: keeps_unique_def reflp_def transp_def)

lemma list_remove_subset: "list_remove xs i s = Return ys \<Longrightarrow> set ys \<subseteq> set xs"
proof (induction xs arbitrary: i ys)
  case Nil
  then show ?case by simp
next
  case (Cons x xs)
  show ?case
  proof (cases "i = 0 \<or> py_eq x s")
    case True
    with Cons.prems show ?thesis by auto
  next
    case False
    with Cons.prems obtain zs where zs: "list_remove xs (i - 1) s = Return zs" "ys = x # zs"
      by (auto split: result.splits)
    from Cons.IH [OF zs(1)] zs(2) show ?thesis by auto
  qed
qed

lemma list_remove_unique:
  "list_remove xs i s = Return ys \<Longrightarrow> unique_rolls xs \<Longrightarrow> unique_rolls ys"
proof (induction xs arbitrary: i ys)
  case Nil
  then show ?case by simp
next
  case (Cons x xs)
  show ?case
  proof (cases "i = 0 \<or> py_eq x s")
    case True
    with Cons.prems show ?thesis by (auto simp: unique_rolls_Cons)
  next
    case False
    with Cons.prems obtain zs where zs: "list_remove xs (i - 1) s = Return zs" "ys = x # zs"
      by (auto split: result.splits)
    from Cons.IH [OF zs(1)] Cons.prems(2) have "unique_rolls zs"
      by (simp add: unique_rolls_Cons)
    moreover from list_remove_subset [OF zs(1)] have "set zs \<subseteq> set xs" .
    ultimately show ?thesis
      using Cons.prems(2) zs(2) by (auto simp: unique_rolls_Cons split: option.splits)
  qed
qed

lemma steps_remove_student: "steps keeps_unique (remove_student i s)"
  by (auto simp: steps_def remove_student_def keeps_unique_def
      split: result.splits dest: list_remove_unique)

lemma delete_student_unique:
  "unique_rolls (students w) \<Longrightarrow> unique_rolls (students (snd (delete_student L w)))"
proof -
  note R = keeps_unique_refl keeps_unique_trans
  have "steps keeps_unique (delete_student L)"
    unfolding delete_student_def Let_def
    by (intro steps_intros R)
       (auto intro!: steps_intros steps_remove_student R split: option.splits)
  then show "unique_rolls (students w) \<Longrightarrow> ?thesis"
    by (simp add: steps_def keeps_unique_def)
qed

lemma unique_rolls_append:
  "unique_rolls xs \<Longrightarrow> search_loop xs r = Return None \<Longrightarrow>
   unique_rolls (xs @ [student r n g a])"
proof -
  assume u: "unique_rolls xs" and "search_loop xs r = Return None"
  then have "PStr r \<notin> set (List.map_filter roll_of xs)"
    unfolding search_loop_None_iff set_map_filter by fastforce
  moreover have "roll_of (student r n g a) = Some (PStr r)"
    by (simp add: student_def roll_of_def field_def)
  ultimately show ?thesis
    using u by (simp add: unique_rolls_def List.map_filter_def)
qed

text \<open>Whatever is typed, \<open>add_student\<close> either leaves the collection as it is or appends
  one record whose roll number the scan did not find.\<close>

lemma add_student_students:
  "students (snd (add_student L w)) = students w \<or>
   (\<exists>r n g a. search_loop (students w) r = Return None \<and>
      students (snd (add_student L w)) = students w @ [student r n g a])"
  by (auto simp: add_student_def io_defs
      split: prod.splits result.splits list.splits
      dest!: prompt_nonempty_result save_data_result)
     (blast dest: search_not_found)+

lemma add_student_unique:
  "unique_rolls (students w) \<Longrightarrow> unique_rolls (students (snd (add_student L w)))"
  using add_student_students [of L w] by (auto simp: unique_rolls_append)

text \<open>
  C8. From a collection in which no two records share a roll number, each operation,
  whatever is typed and however it ends (normally or by an exception), leaves a
  collection in which no two records share a roll number. In particular \<open>add_student\<close>
  leaves the collection unchanged when the roll number typed is already there, and
  \<open>update_student\<close> never changes the roll number of any record.
\<close>

theorem unique_rolls_preserved:
  assumes "unique_rolls (students w)"
  shows "unique_rolls (students (snd (add_student L w))) \<and>
         unique_rolls (students (snd (update_student L w))) \<and>
         unique_rolls (students (snd (delete_student L w))) \<and>
         unique_rolls (students (snd (search_by_roll r w))) \<and>
         unique_rolls (students (snd (search_student L w))) \<and>
         unique_rolls (students (snd (view_students w))) \<and>
         map roll_of (students (snd (update_student L w))) = map roll_of (students w) \<and>
         (stdin w = l # rest \<and> str_strip L l \<noteq> [] \<and>
            (\<exists>s\<in>set (students w). roll_of s = Some (PStr (str_strip L l))) \<longrightarrow>
            students (snd (add_student L w)) = students w)"
proof (intro conjI impI)
  show "unique_rolls (students (snd (add_student L w)))"
    using assms by (rule add_student_unique)
  show "unique_rolls (students (snd (update_student L w)))"
    using assms unique_rolls_map [OF update_student_rolls] by simp
  show "unique_rolls (students (snd (delete_student L w)))"
    using assms by (rule delete_student_unique)
  show "unique_rolls (students (snd (search_by_roll r w)))"
    using assms by (simp add: search_by_roll_def)
  show "unique_rolls (students (snd (search_student L w)))"
    using assms by (simp add: search_student_keeps)
  show "unique_rolls (students (snd (view_students w)))"
    using assms by (simp add: view_students_keeps)
  show "map roll_of (students (snd (update_student L w))) = map roll_of (students w)"
    by (rule update_student_rolls)
next
  assume "stdin w = l # rest \<and> str_strip L l \<noteq> [] \<and>
    (\<exists>s\<in>set (students w). roll_of s = Some (PStr (str_strip L l)))"
  then show "students (snd (add_student L w)) = students w"
    using add_student_duplicate [of w l rest L] by simp
qed

theorem unique_rolls_preserved_witness:
  "unique_rolls [alice, bob] \<and>
   unique_rolls (students (snd (add_student sample_lib
      (start [alice, bob] None [''103'', ''Cara'', ''a'', ''17''])))) \<and>
   unique_rolls (students (snd (update_student sample_lib
      (start [alice, bob] None [''103'', ''Cara'', ''a'', ''17''])))) \<and>
   unique_rolls (students (snd (delete_student sample_lib
      (start [alice, bob] None [''103'', ''Cara'', ''a'', ''17''])))) \<and>
   unique_rolls (students (snd (search_student sample_lib
      (start [alice, bob] None [''103'', ''Cara'', ''a'', ''17''])))) \<and>
   unique_rolls (students (snd (view_students
      (start [alice, bob] None [''103'', ''Cara'', ''a'', ''17'']))))"
  using unique_rolls_preserved [of "start [alice, bob] None [''103'', ''Cara'', ''a'', ''17'']"
      sample_lib "''103''" "''103''" "[''Cara'', ''a'', ''17'']"]
  by (simp add: start_def alice_def bob_def student_def unique_rolls_def List.map_filter_simps
      roll_of_def field_def)

end
